theory Spec2Isabelle
  imports Complex_Main
begin

section \<open>The sword-fight environment adapter\<close>

text \<open>
  A shallow embedding of \<^verbatim>\<open>gym_vrep/envs/ergo_fight_static_env.py\<close>, class
  \<^verbatim>\<open>ErgoFightStaticEnv\<close>. Python integers are modelled by \<open>int\<close>. The constants and the
  simulator's readings are exact reals; the floats that a caller passes in, and what is
  computed from them, are exact reals extended by the two infinities and NaN. The simulator is an external process: the calls the adapter sends to it are
  recorded in a trace, and the values it answers with are an input of each operation.
\<close>

subsection \<open>Errors\<close>

datatype py_error = IndexError | ZeroDivisionError | ValueError | AttributeError

subsection \<open>Floats\<close>

text \<open>
  A caller's float: a number, an infinity or NaN. Arithmetic follows IEEE 754 on the
  special values (NaN is absorbing, opposite infinities add up to NaN, an infinity times
  zero is NaN) and is exact on numbers.
\<close>

datatype pyfloat = Flt real | PosInf | NegInf | NaN

fun fl_add :: "pyfloat \<Rightarrow> pyfloat \<Rightarrow> pyfloat" where
  "fl_add (Flt x) (Flt y) = Flt (x + y)"
| "fl_add NaN b = NaN"
| "fl_add a NaN = NaN"
| "fl_add PosInf NegInf = NaN"
| "fl_add NegInf PosInf = NaN"
| "fl_add PosInf b = PosInf"
| "fl_add a PosInf = PosInf"
| "fl_add NegInf b = NegInf"
| "fl_add a NegInf = NegInf"

fun fl_mul :: "pyfloat \<Rightarrow> pyfloat \<Rightarrow> pyfloat" where
  "fl_mul (Flt x) (Flt y) = Flt (x * y)"
| "fl_mul NaN b = NaN"
| "fl_mul a NaN = NaN"
| "fl_mul PosInf (Flt y) = (if y = 0 then NaN else if 0 < y then PosInf else NegInf)"
| "fl_mul NegInf (Flt y) = (if y = 0 then NaN else if 0 < y then NegInf else PosInf)"
| "fl_mul (Flt x) PosInf = (if x = 0 then NaN else if 0 < x then PosInf else NegInf)"
| "fl_mul (Flt x) NegInf = (if x = 0 then NaN else if 0 < x then NegInf else PosInf)"
| "fl_mul PosInf PosInf = PosInf"
| "fl_mul NegInf NegInf = PosInf"
| "fl_mul PosInf NegInf = NegInf"
| "fl_mul NegInf PosInf = NegInf"

text \<open>Division by the literal 2.\<close>

fun fl_halve :: "pyfloat \<Rightarrow> pyfloat" where
  "fl_halve (Flt x) = Flt (x / 2)"
| "fl_halve PosInf = PosInf"
| "fl_halve NegInf = NegInf"
| "fl_halve NaN = NaN"

subsection \<open>The simulator binding\<close>

text \<open>
  A joint handle is resolved from its scene name \<^verbatim>\<open>'r{}m{}'\<close>: \<open>Motor r m\<close> is the
  handle of the joint named with robot number \<open>r\<close> and motor number \<open>m\<close>.
\<close>

datatype motor = Motor nat nat

datatype sim_call =
    Start
  | LoadScene string
  | StopSimulation
  | StartSimulation bool
  | SetPositionTarget motor pyfloat
  | StepBlockingSimulation

text \<open>
  What the simulator answers when it is queried: \<^verbatim>\<open>get_joint_angle()\<close>,
  \<^verbatim>\<open>get_joint_velocity()[0]\<close>, \<^verbatim>\<open>get_image(cam)\<close> and \<^verbatim>\<open>is_colliding()\<close>.
\<close>

record sim_reading =
  joint_angle :: "motor \<Rightarrow> real"
  joint_velocity :: "motor \<Rightarrow> real"
  image :: "nat list"
  is_colliding :: bool

subsection \<open>Module constants\<close>

definition REST_POS :: "int list" where
  "REST_POS = [0, 0, 0, 0, 0, 0]"

definition RANDOM_NOISE :: "(int \<times> int) list" where
  "RANDOM_NOISE = [(-90, 90), (-30, 30), (-30, 30), (-45, 45), (-30, 30), (-30, 30)]"

definition INVULNERABILITY_AFTER_HIT :: int where
  "INVULNERABILITY_AFTER_HIT = 3"

text \<open>
  \<^verbatim>\<open>JOINT_LIMITS\<close> is imported from \<^verbatim>\<open>gym_vrep.envs.constants\<close>, whose values are
  not part of the module: the table is a parameter \<open>jl\<close> of every operation that reads it.
\<close>

type_synonym joint_limits = "(real \<times> real) list"

subsection \<open>The environment object\<close>

text \<open>
  The attributes of \<^verbatim>\<open>self\<close> that the operations read or write. \<^verbatim>\<open>self.done\<close> and
  \<^verbatim>\<open>self.observation\<close> are created by assignments outside the constructor, so they are
  optional: \<open>None\<close> means that the attribute does not exist. (\<open>done\<close> is a reserved
  word, hence the field name \<open>done_attr\<close>.) \<open>venv\<close> is the trace of calls sent to the
  simulator so far.
\<close>

type_synonym obs = "nat list \<times> real list"

record env =
  headless :: bool
  venv :: "sim_call list"
  motors :: "motor list \<times> motor list"
  diffs :: "real list"
  frames_after_hit :: int
  done_attr :: "bool option"
  observation :: "obs option"

definition set_position_target :: "motor \<Rightarrow> pyfloat \<Rightarrow> env \<Rightarrow> env" where
  "set_position_target m v s = s\<lparr>venv := venv s @ [SetPositionTarget m v]\<rparr>"

definition step_blocking_simulation :: "env \<Rightarrow> env" where
  "step_blocking_simulation s = s\<lparr>venv := venv s @ [StepBlockingSimulation]\<rparr>"

definition stop_simulation :: "env \<Rightarrow> env" where
  "stop_simulation s = s\<lparr>venv := venv s @ [StopSimulation]\<rparr>"

definition start_simulation :: "bool \<Rightarrow> env \<Rightarrow> env" where
  "start_simulation is_sync s = s\<lparr>venv := venv s @ [StartSimulation is_sync]\<rparr>"

text \<open>The position target a motor was last commanded to, read off a trace.\<close>

fun position_target :: "sim_call list \<Rightarrow> motor \<Rightarrow> pyfloat option" where
  "position_target [] m = None"
| "position_target (c # cs) m =
     (case position_target cs m of
        Some v \<Rightarrow> Some v
      | None \<Rightarrow> (case c of SetPositionTarget m' v \<Rightarrow> if m' = m then Some v else None
                 | _ \<Rightarrow> None))"

subsection \<open>Construction\<close>

text \<open>
  \<^verbatim>\<open>_startEnv\<close>: the handles of robot \<open>robot_idx\<close>, motors 1 to 6. The scene is loaded
  from a path relative to the module's directory; the trace keeps the relative part.
\<close>

definition robot_motors :: "nat \<Rightarrow> motor list" where
  "robot_motors robot_idx = map (\<lambda>motor_idx. Motor (robot_idx + 1) (motor_idx + 1)) [0..<6]"

text \<open>\<^verbatim>\<open>[JOINT_LIMITS[i][1] - JOINT_LIMITS[i][0] for i in range(6)]\<close>\<close>

fun diffs_loop :: "joint_limits \<Rightarrow> nat list \<Rightarrow> py_error + real list" where
  "diffs_loop jl [] = Inr []"
| "diffs_loop jl (i # is) =
     (if length jl \<le> i then Inl IndexError
      else case diffs_loop jl is of
             Inl e \<Rightarrow> Inl e
           | Inr ds \<Rightarrow> Inr ((snd (jl ! i) - fst (jl ! i)) # ds))"

definition init :: "joint_limits \<Rightarrow> bool \<Rightarrow> py_error + env" where
  "init jl hl =
     (case diffs_loop jl [0..<6] of
        Inl e \<Rightarrow> Inl e
      | Inr ds \<Rightarrow>
          Inr \<lparr>headless = hl,
               venv = [Start, LoadScene ''/../scenes/poppy_ergo_jr_fight_sword1.ttt''],
               motors = (robot_motors 0, robot_motors 1),
               diffs = ds,
               frames_after_hit = -1,
               done_attr = None,
               observation = None\<rparr>)"

subsection \<open>Normalisation\<close>

text \<open>
  \<^verbatim>\<open>_normalize\<close> and \<^verbatim>\<open>_denormalize\<close>: the loops over \<^verbatim>\<open>range(6)\<close>, with the index
  errors of the three subscripts and the division by a zero width written out, in the
  order in which Python evaluates them.
\<close>

fun normalize_loop ::
  "joint_limits \<Rightarrow> real list \<Rightarrow> real list \<Rightarrow> nat list \<Rightarrow> real list \<Rightarrow> py_error + real list" where
  "normalize_loop jl ds pos [] out = Inr out"
| "normalize_loop jl ds pos (i # is) out =
     (if length pos \<le> i then Inl IndexError
      else if length jl \<le> i then Inl IndexError
      else if length ds \<le> i then Inl IndexError
      else if ds ! i = 0 then Inl ZeroDivisionError
      else let shifted = (pos ! i - fst (jl ! i)) / ds ! i;
               norm = shifted * 2 - 1
           in normalize_loop jl ds pos is (out @ [norm]))"

definition normalize_pos :: "joint_limits \<Rightarrow> env \<Rightarrow> real list \<Rightarrow> py_error + real list" where
  "normalize_pos jl s pos = normalize_loop jl (diffs s) pos [0..<6] []"

fun denormalize_loop ::
  "joint_limits \<Rightarrow> real list \<Rightarrow> pyfloat list \<Rightarrow> nat list \<Rightarrow> pyfloat list \<Rightarrow>
   py_error + pyfloat list" where
  "denormalize_loop jl ds actions [] out = Inr out"
| "denormalize_loop jl ds actions (i # is) out =
     (if length actions \<le> i then Inl IndexError
      else let shifted = fl_halve (fl_add (actions ! i) (Flt 1))
           in if length ds \<le> i then Inl IndexError
              else if length jl \<le> i then Inl IndexError
              else let denorm = fl_add (fl_mul shifted (Flt (ds ! i))) (Flt (fst (jl ! i)))
                   in denormalize_loop jl ds actions is (out @ [denorm]))"

definition denormalize :: "joint_limits \<Rightarrow> env \<Rightarrow> pyfloat list \<Rightarrow> py_error + pyfloat list" where
  "denormalize jl s actions = denormalize_loop jl (diffs s) actions [0..<6] []"

text \<open>
  \<^verbatim>\<open>np.clip(a, a_min, a_max)\<close>, element by element: the minimum with \<open>a_max\<close> of the
  maximum with \<open>a_min\<close>. numpy's minimum and maximum propagate NaN, so a NaN component
  comes out as NaN; an infinite one is clamped.
\<close>

fun clip1 :: "real \<Rightarrow> real \<Rightarrow> pyfloat \<Rightarrow> pyfloat" where
  "clip1 a_min a_max (Flt x) = Flt (min (max x a_min) a_max)"
| "clip1 a_min a_max PosInf = Flt a_max"
| "clip1 a_min a_max NegInf = Flt (min a_min a_max)"
| "clip1 a_min a_max NaN = NaN"

definition clip :: "pyfloat list \<Rightarrow> real \<Rightarrow> real \<Rightarrow> pyfloat list" where
  "clip a a_min a_max = map (clip1 a_min a_max) a"

subsection \<open>Commanding the arms\<close>

fun gotoPos_loop :: "env \<Rightarrow> pyfloat list \<Rightarrow> (nat \<times> motor) list \<Rightarrow> (py_error + unit) \<times> env" where
  "gotoPos_loop s pos [] = (Inr (), s)"
| "gotoPos_loop s pos ((i, m) # ims) =
     (if length pos \<le> i then (Inl IndexError, s)
      else gotoPos_loop (set_position_target m (pos ! i) s) pos ims)"

definition gotoPos :: "env \<Rightarrow> pyfloat list \<Rightarrow> (py_error + unit) \<times> env" where
  "gotoPos s pos = gotoPos_loop s pos (enumerate 0 (fst (motors s)))"

text \<open>
  \<^verbatim>\<open>np.random.randint(low, high, size=1)[0]\<close>: an integer of the half-open range
  \<open>[low, high)\<close>, chosen by the generator's entropy \<open>u\<close>; an empty range is an error.
\<close>

definition randint :: "int \<Rightarrow> int \<Rightarrow> nat \<Rightarrow> py_error + int" where
  "randint low high u =
     (if low < high then Inr (low + int u mod (high - low)) else Inl ValueError)"

fun randomize_loop :: "env \<Rightarrow> (nat \<Rightarrow> nat) \<Rightarrow> nat list \<Rightarrow> (py_error + unit) \<times> env" where
  "randomize_loop s rnd [] = (Inr (), s)"
| "randomize_loop s rnd (i # is) =
     (if length REST_POS \<le> i then (Inl IndexError, s)
      else if length RANDOM_NOISE \<le> i then (Inl IndexError, s)
      else case randint (fst (RANDOM_NOISE ! i)) (snd (RANDOM_NOISE ! i)) (rnd i) of
             Inl e \<Rightarrow> (Inl e, s)
           | Inr r \<Rightarrow>
               let new_pos = REST_POS ! i + r
               in if length (snd (motors s)) \<le> i then (Inl IndexError, s)
                  else randomize_loop
                         (set_position_target (snd (motors s) ! i) (Flt (real_of_int new_pos)) s)
                         rnd is)"

definition randomize :: "env \<Rightarrow> (nat \<Rightarrow> nat) \<Rightarrow> (py_error + unit) \<times> env" where
  "randomize s rnd = randomize_loop s rnd [0..<6]"

fun rest_loop :: "env \<Rightarrow> (nat \<times> motor) list \<Rightarrow> (py_error + unit) \<times> env" where
  "rest_loop s [] = (Inr (), s)"
| "rest_loop s ((i, m) # ims) =
     (if length REST_POS \<le> i then (Inl IndexError, s)
      else rest_loop (set_position_target m (Flt (real_of_int (REST_POS ! i))) s) ims)"

definition restPos :: "env \<Rightarrow> (nat \<Rightarrow> nat) \<Rightarrow> (py_error + unit) \<times> env" where
  "restPos s rnd =
     (let s1 = s\<lparr>done_attr := Some False\<rparr>;
          s2 = stop_simulation s1;
          s3 = start_simulation True s2
      in case rest_loop s3 (enumerate 0 (fst (motors s3))) of
           (Inl e, s4) \<Rightarrow> (Inl e, s4)
         | (Inr _, s4) \<Rightarrow>
             (case randomize s4 rnd of
                (Inl e, s5) \<Rightarrow> (Inl e, s5)
              | (Inr _, s5) \<Rightarrow> (Inr (), (step_blocking_simulation ^^ 15) s5)))"

subsection \<open>Observation and reward\<close>

definition self_observe :: "joint_limits \<Rightarrow> env \<Rightarrow> sim_reading \<Rightarrow> (py_error + unit) \<times> env" where
  "self_observe jl s rd =
     (let pos = map (joint_angle rd) (fst (motors s));
          vel = map (joint_velocity rd) (fst (motors s))
      in case normalize_pos jl s pos of
           Inl e \<Rightarrow> (Inl e, s)
         | Inr pos' \<Rightarrow>
             (let joint_vel = pos' @ vel;
                  cam_image = image rd
              in (Inr (), s\<lparr>observation := Some (cam_image, joint_vel)\<rparr>)))"

definition getReward :: "env \<Rightarrow> sim_reading \<Rightarrow> int \<times> env" where
  "getReward s rd =
     (if is_colliding rd \<and> frames_after_hit s = -1
      then (1, s\<lparr>frames_after_hit := 0\<rparr>)
      else let s1 = (if frames_after_hit s \<ge> 0
                     then s\<lparr>frames_after_hit := frames_after_hit s + 1\<rparr> else s);
               s2 = (if frames_after_hit s1 \<ge> INVULNERABILITY_AFTER_HIT
                     then s1\<lparr>frames_after_hit := -1\<rparr> else s1)
           in (0, s2))"

subsection \<open>Reset and step\<close>

definition reset ::
  "joint_limits \<Rightarrow> env \<Rightarrow> (nat \<Rightarrow> nat) \<Rightarrow> sim_reading \<Rightarrow> (py_error + obs) \<times> env" where
  "reset jl s rnd rd =
     (case restPos s rnd of
        (Inl e, s1) \<Rightarrow> (Inl e, s1)
      | (Inr _, s1) \<Rightarrow>
          (case self_observe jl s1 rd of
             (Inl e, s2) \<Rightarrow> (Inl e, s2)
           | (Inr _, s2) \<Rightarrow>
               (let s3 = s2\<lparr>frames_after_hit := -1\<rparr>
                in case observation s3 of
                     None \<Rightarrow> (Inl AttributeError, s3)
                   | Some ob \<Rightarrow> (Inr ob, s3))))"

type_synonym step_result = "obs \<times> int \<times> bool \<times> (string \<times> string) list"

definition step ::
  "joint_limits \<Rightarrow> env \<Rightarrow> pyfloat list \<Rightarrow> sim_reading \<Rightarrow> (py_error + step_result) \<times> env" where
  "step jl s actions rd =
     (let clipped = clip actions (-1) 1
      in case denormalize jl s clipped of
           Inl e \<Rightarrow> (Inl e, s)
         | Inr targets \<Rightarrow>
             (case gotoPos s targets of
                (Inl e, s1) \<Rightarrow> (Inl e, s1)
              | (Inr _, s1) \<Rightarrow>
                  (let s2 = step_blocking_simulation s1
                   in case self_observe jl s2 rd of
                        (Inl e, s3) \<Rightarrow> (Inl e, s3)
                      | (Inr _, s3) \<Rightarrow>
                          (case observation s3 of
                             None \<Rightarrow> (Inl AttributeError, s3)
                           | Some ob \<Rightarrow>
                               (case getReward s3 rd of
                                  (reward, s4) \<Rightarrow>
                                    (case done_attr s4 of
                                       None \<Rightarrow> (Inl AttributeError, s4)
                                     | Some d \<Rightarrow> (Inr (ob, reward, d, []), s4)))))))"

text \<open>A run of step calls; a caller that catches an error goes on with the same object.\<close>

fun run_steps ::
  "joint_limits \<Rightarrow> env \<Rightarrow> (pyfloat list \<times> sim_reading) list \<Rightarrow>
   (py_error + step_result) list \<times> env" where
  "run_steps jl s [] = ([], s)"
| "run_steps jl s ((actions, rd) # rest) =
     (case step jl s actions rd of
        (r, s') \<Rightarrow> (case run_steps jl s' rest of (rs, s'') \<Rightarrow> (r # rs, s'')))"

subsection \<open>Well-formed objects and tables\<close>

text \<open>
  What the constructor establishes and no operation changes: the two lists of motor
  handles and the range widths computed from the joint-limit table.
\<close>

definition valid_env :: "joint_limits \<Rightarrow> env \<Rightarrow> bool" where
  "valid_env jl s \<longleftrightarrow>
     6 \<le> length jl \<and>
     motors s = (robot_motors 0, robot_motors 1) \<and>
     diffs s = map (\<lambda>i. snd (jl ! i) - fst (jl ! i)) [0..<6]"

text \<open>Every joint's limits are a pair \<open>(min, max)\<close> with \<open>min < max\<close>.\<close>

definition limits_ok :: "joint_limits \<Rightarrow> bool" where
  "limits_ok jl \<longleftrightarrow> list_all (\<lambda>i. fst (jl ! i) < snd (jl ! i)) [0..<6]"

subsection \<open>Auxiliary notions for the proofs\<close>

text \<open>The noise drawn for joint \<open>i\<close> in \<^verbatim>\<open>randomize\<close>, when the range is not empty.\<close>

definition noise :: "(nat \<Rightarrow> nat) \<Rightarrow> nat \<Rightarrow> int" where
  "noise rnd i =
     fst (RANDOM_NOISE ! i) + int (rnd i) mod (snd (RANDOM_NOISE ! i) - fst (RANDOM_NOISE ! i))"

text \<open>The call \<open>c\<close> is a position-target command to one of the motors \<open>ms\<close>.\<close>

definition commands :: "motor list \<Rightarrow> sim_call \<Rightarrow> bool" where
  "commands ms c = (case c of SetPositionTarget m v \<Rightarrow> m \<in> set ms | _ \<Rightarrow> False)"

text \<open>The attributes that only the constructor and \<^verbatim>\<open>_restPos\<close> assign are the same in both.\<close>

definition same_attrs :: "env \<Rightarrow> env \<Rightarrow> bool" where
  "same_attrs s s' \<longleftrightarrow>
     headless s' = headless s \<and> motors s' = motors s \<and> diffs s' = diffs s \<and>
     done_attr s' = done_attr s"

text \<open>The calls that \<^verbatim>\<open>_restPos\<close> sends to the simulator, in order.\<close>

definition reset_trace :: "env \<Rightarrow> (nat \<Rightarrow> nat) \<Rightarrow> sim_call list" where
  "reset_trace s rnd =
     [StopSimulation, StartSimulation True] @
     map (\<lambda>i. SetPositionTarget (fst (motors s) ! i) (Flt (real_of_int (REST_POS ! i)))) [0..<6] @
     map (\<lambda>i. SetPositionTarget (snd (motors s) ! i) (Flt (real_of_int (REST_POS ! i + noise rnd i))))
       [0..<6] @
     replicate 15 StepBlockingSimulation"

text \<open>Every joint's limits are a pair \<open>(min, max)\<close> with \<open>min \<le> max\<close>.\<close>

definition limits_ordered :: "joint_limits \<Rightarrow> bool" where
  "limits_ordered jl \<longleftrightarrow> list_all (\<lambda>i. fst (jl ! i) \<le> snd (jl ! i)) [0..<6]"

subsection \<open>Sample inputs\<close>

text \<open>
  A joint-limit table, an object as the constructor builds it from that table, a simulator
  reading with the swords in contact, a source of entropy, an action vector with finite
  and infinite components outside \<open>[-1, 1]\<close>, and one with a NaN component. They
  instantiate the theorems below.
\<close>

definition sample_limits :: joint_limits where
  "sample_limits = [(-150, 150), (-90, 125), (-90, 90), (-90, 90), (-90, 90), (-90, 90)]"

definition sample_env :: env where
  "sample_env =
     \<lparr>headless = True,
      venv = [Start, LoadScene ''/../scenes/poppy_ergo_jr_fight_sword1.ttt''],
      motors = (robot_motors 0, robot_motors 1),
      diffs = [300, 215, 180, 180, 180, 180],
      frames_after_hit = -1,
      done_attr = None,
      observation = None\<rparr>"

definition sample_reading :: sim_reading where
  "sample_reading =
     \<lparr>joint_angle = (\<lambda>m. 45), joint_velocity = (\<lambda>m. 0), image = [], is_colliding = True\<rparr>"

definition sample_rnd :: "nat \<Rightarrow> nat" where
  "sample_rnd i = 7 * i + 3"

definition sample_actions :: "pyfloat list" where
  "sample_actions = [Flt (1 / 2), Flt (-3), Flt 2, PosInf, NegInf, Flt 1]"

definition nan_actions :: "pyfloat list" where
  "nan_actions = [NaN, Flt 0, Flt 0, Flt 0, Flt 0, Flt 0]"

definition sample_pos :: "real list" where
  "sample_pos = [30, -90, 125, 0, 200, -10]"

definition sample_inputs :: "(pyfloat list \<times> sim_reading) list" where
  "sample_inputs =
     [(sample_actions, sample_reading), (sample_actions, sample_reading),
      (sample_actions, sample_reading\<lparr>is_colliding := False\<rparr>)]"

section \<open>Properties\<close>

subsection \<open>Closed forms of the loops and frame conditions\<close>

lemma getReward_cases:
  "getReward s rd =
     (if is_colliding rd \<and> frames_after_hit s = -1 then (1, s\<lparr>frames_after_hit := 0\<rparr>)
      else if 0 \<le> frames_after_hit s \<and> frames_after_hit s < 2
           then (0, s\<lparr>frames_after_hit := frames_after_hit s + 1\<rparr>)
      else if 2 \<le> frames_after_hit s then (0, s\<lparr>frames_after_hit := -1\<rparr>)
      else (0, s))"
  by (simp add: getReward_def INVULNERABILITY_AFTER_HIT_def Let_def)

lemma normalize_loop_ok:
  "\<forall>i\<in>set is. i < length pos \<and> i < length jl \<and> i < length ds \<and> ds ! i \<noteq> 0 \<Longrightarrow>
   normalize_loop jl ds pos is out =
     Inr (out @ map (\<lambda>i. (pos ! i - fst (jl ! i)) / ds ! i * 2 - 1) is)"
  by (induction "is" arbitrary: out) (simp_all add: Let_def)

lemma denormalize_loop_ok:
  "\<forall>i\<in>set is. i < length actions \<and> i < length jl \<and> i < length ds \<Longrightarrow>
   denormalize_loop jl ds actions is out =
     Inr (out @ map (\<lambda>i. fl_add (fl_mul (fl_halve (fl_add (actions ! i) (Flt 1))) (Flt (ds ! i)))
                     (Flt (fst (jl ! i)))) is)"
  by (induction "is" arbitrary: out) (simp_all add: Let_def)

lemma gotoPos_loop_ok:
  "\<forall>(i, m)\<in>set ims. i < length pos \<Longrightarrow>
   gotoPos_loop s pos ims =
     (Inr (), s\<lparr>venv := venv s @ map (\<lambda>(i, m). SetPositionTarget m (pos ! i)) ims\<rparr>)"
  by (induction ims arbitrary: s) (auto simp: set_position_target_def)

lemma rest_loop_ok:
  "\<forall>(i, m)\<in>set ims. i < length REST_POS \<Longrightarrow>
   rest_loop s ims =
     (Inr (), s\<lparr>venv := venv s @ map (\<lambda>(i, m). SetPositionTarget m (Flt (real_of_int (REST_POS ! i)))) ims\<rparr>)"
  by (induction ims arbitrary: s) (auto simp: set_position_target_def)

lemma below_six: "i < 6 \<Longrightarrow> i = 0 \<or> i = 1 \<or> i = 2 \<or> i = 3 \<or> i = 4 \<or> i = (5::nat)"
  by arith

lemma noise_range: "i < 6 \<Longrightarrow> fst (RANDOM_NOISE ! i) < snd (RANDOM_NOISE ! i)"
  by (drule below_six) (auto simp: RANDOM_NOISE_def)

lemma length_REST_POS: "length REST_POS = 6"
  by (simp add: REST_POS_def)

lemma length_RANDOM_NOISE: "length RANDOM_NOISE = 6"
  by (simp add: RANDOM_NOISE_def)

lemma length_robot_motors: "length (robot_motors r) = 6"
  by (simp add: robot_motors_def)

lemma set_position_target_fields:
  "motors (set_position_target m v s) = motors s"
  "diffs (set_position_target m v s) = diffs s"
  "frames_after_hit (set_position_target m v s) = frames_after_hit s"
  "done_attr (set_position_target m v s) = done_attr s"
  "observation (set_position_target m v s) = observation s"
  "headless (set_position_target m v s) = headless s"
  "venv (set_position_target m v s) = venv s @ [SetPositionTarget m v]"
  by (simp_all add: set_position_target_def)

lemma randint_noise:
  "i < 6 \<Longrightarrow> randint (fst (RANDOM_NOISE ! i)) (snd (RANDOM_NOISE ! i)) (rnd i) = Inr (noise rnd i)"
  by (simp add: randint_def noise_def noise_range)

lemma randomize_loop_ok:
  "\<forall>i\<in>set is. i < 6 \<Longrightarrow> length (snd (motors s)) = 6 \<Longrightarrow>
   randomize_loop s rnd is =
     (Inr (), s\<lparr>venv := venv s @
        map (\<lambda>i. SetPositionTarget (snd (motors s) ! i)
              (Flt (real_of_int (REST_POS ! i + noise rnd i)))) is\<rparr>)"
proof (induction "is" arbitrary: s)
  case Nil
  then show ?case by simp
next
  case (Cons i "is")
  have i: "i < 6" using Cons.prems by simp
  let ?s' = "set_position_target (snd (motors s) ! i) (Flt (real_of_int (REST_POS ! i + noise rnd i))) s"
  have ih: "randomize_loop ?s' rnd is = (Inr (), ?s'\<lparr>venv := venv ?s' @
        map (\<lambda>i. SetPositionTarget (snd (motors ?s') ! i)
              (Flt (real_of_int (REST_POS ! i + noise rnd i)))) is\<rparr>)"
    using Cons.prems by (intro Cons.IH) (simp_all add: set_position_target_fields)
  have "randomize_loop s rnd (i # is) = randomize_loop ?s' rnd is"
    using i Cons.prems(2)
    by (simp add: randint_noise length_REST_POS length_RANDOM_NOISE Let_def del: of_int_add)
  also have "\<dots> = (Inr (), s\<lparr>venv := venv s @
        map (\<lambda>i. SetPositionTarget (snd (motors s) ! i)
              (Flt (real_of_int (REST_POS ! i + noise rnd i)))) (i # is)\<rparr>)"
    unfolding ih by (simp add: set_position_target_def del: of_int_add)
  finally show ?case .
qed

lemma sim_call_fields:
  "motors (step_blocking_simulation s) = motors s"
  "diffs (step_blocking_simulation s) = diffs s"
  "frames_after_hit (step_blocking_simulation s) = frames_after_hit s"
  "done_attr (step_blocking_simulation s) = done_attr s"
  "observation (step_blocking_simulation s) = observation s"
  "venv (step_blocking_simulation s) = venv s @ [StepBlockingSimulation]"
  "motors (stop_simulation s) = motors s"
  "diffs (stop_simulation s) = diffs s"
  "frames_after_hit (stop_simulation s) = frames_after_hit s"
  "done_attr (stop_simulation s) = done_attr s"
  "observation (stop_simulation s) = observation s"
  "venv (stop_simulation s) = venv s @ [StopSimulation]"
  "motors (start_simulation b s) = motors s"
  "diffs (start_simulation b s) = diffs s"
  "frames_after_hit (start_simulation b s) = frames_after_hit s"
  "done_attr (start_simulation b s) = done_attr s"
  "observation (start_simulation b s) = observation s"
  "venv (start_simulation b s) = venv s @ [StartSimulation b]"
  by (simp_all add: step_blocking_simulation_def stop_simulation_def start_simulation_def)

lemma valid_env_diffs:
  "valid_env jl s \<Longrightarrow> length (diffs s) = 6"
  "valid_env jl s \<Longrightarrow> i < 6 \<Longrightarrow> diffs s ! i = snd (jl ! i) - fst (jl ! i)"
  by (simp_all add: valid_env_def)

lemma limits_okD: "limits_ok jl \<Longrightarrow> i < 6 \<Longrightarrow> fst (jl ! i) < snd (jl ! i)"
  by (simp add: limits_ok_def list_all_iff)

lemma normalize_pos_ok:
  assumes "valid_env jl s" and "limits_ok jl" and "6 \<le> length pos"
  shows "normalize_pos jl s pos =
    Inr (map (\<lambda>i. (pos ! i - fst (jl ! i)) / (snd (jl ! i) - fst (jl ! i)) * 2 - 1) [0..<6])"
proof -
  have "i < length pos \<and> i < length jl \<and> i < length (diffs s) \<and> diffs s ! i \<noteq> 0"
    if "i < 6" for i
  proof -
    have "fst (jl ! i) < snd (jl ! i)" using assms(2) that by (rule limits_okD)
    moreover have "diffs s ! i = snd (jl ! i) - fst (jl ! i)"
      using assms(1) that by (rule valid_env_diffs)
    moreover have "6 \<le> length jl" using assms(1) by (simp add: valid_env_def)
    ultimately show ?thesis using that assms(3) valid_env_diffs(1) [OF assms(1)] by simp
  qed
  then have "\<forall>i\<in>set [0..<6]. i < length pos \<and> i < length jl \<and> i < length (diffs s) \<and> diffs s ! i \<noteq> 0"
    by simp
  then have "normalize_pos jl s pos =
      Inr ([] @ map (\<lambda>i. (pos ! i - fst (jl ! i)) / diffs s ! i * 2 - 1) [0..<6])"
    unfolding normalize_pos_def by (rule normalize_loop_ok)
  moreover have "map (\<lambda>i. (pos ! i - fst (jl ! i)) / diffs s ! i * 2 - 1) [0..<6] =
      map (\<lambda>i. (pos ! i - fst (jl ! i)) / (snd (jl ! i) - fst (jl ! i)) * 2 - 1) [0..<6]"
    by (rule map_cong [OF refl]) (simp add: valid_env_diffs(2) [OF assms(1)])
  ultimately show ?thesis by simp
qed

lemma denormalize_ok:
  assumes "valid_env jl s" and "6 \<le> length actions"
  shows "denormalize jl s actions =
    Inr (map (\<lambda>i. fl_add (fl_mul (fl_halve (fl_add (actions ! i) (Flt 1)))
                       (Flt (snd (jl ! i) - fst (jl ! i))))
                     (Flt (fst (jl ! i)))) [0..<6])"
proof -
  have "\<forall>i\<in>set [0..<6]. i < length actions \<and> i < length jl \<and> i < length (diffs s)"
    using assms by (auto simp: valid_env_diffs valid_env_def)
  then have "denormalize jl s actions =
      Inr ([] @ map (\<lambda>i. fl_add (fl_mul (fl_halve (fl_add (actions ! i) (Flt 1))) (Flt (diffs s ! i)))
                     (Flt (fst (jl ! i)))) [0..<6])"
    unfolding denormalize_def by (rule denormalize_loop_ok)
  moreover have "map (\<lambda>i. fl_add (fl_mul (fl_halve (fl_add (actions ! i) (Flt 1))) (Flt (diffs s ! i)))
                     (Flt (fst (jl ! i)))) [0..<6] =
      map (\<lambda>i. fl_add (fl_mul (fl_halve (fl_add (actions ! i) (Flt 1)))
                       (Flt (snd (jl ! i) - fst (jl ! i))))
                     (Flt (fst (jl ! i)))) [0..<6]"
    by (rule map_cong [OF refl]) (simp add: valid_env_diffs(2) [OF assms(1)])
  ultimately show ?thesis by simp
qed

lemma enumerate_bound: "(i, m) \<in> set (enumerate 0 xs) \<Longrightarrow> i < length xs"
  by (auto simp: enumerate_eq_zip dest: set_zip_leftD)

lemma gotoPos_ok:
  assumes "length (fst (motors s)) \<le> length pos"
  shows "gotoPos s pos =
    (Inr (), s\<lparr>venv := venv s @
       map (\<lambda>(i, m). SetPositionTarget m (pos ! i)) (enumerate 0 (fst (motors s)))\<rparr>)"
  unfolding gotoPos_def
  by (rule gotoPos_loop_ok) (use assms in \<open>auto dest: enumerate_bound\<close>)

lemma self_observe_ok:
  assumes "valid_env jl s" and "limits_ok jl"
  shows "self_observe jl s rd =
    (Inr (), s\<lparr>observation := Some (image rd,
       map (\<lambda>i. (joint_angle rd (fst (motors s) ! i) - fst (jl ! i)) /
                    (snd (jl ! i) - fst (jl ! i)) * 2 - 1) [0..<6] @
       map (joint_velocity rd) (fst (motors s)))\<rparr>)"
proof -
  have len: "length (fst (motors s)) = 6"
    using assms(1) by (simp add: valid_env_def length_robot_motors)
  have "normalize_pos jl s (map (joint_angle rd) (fst (motors s))) =
    Inr (map (\<lambda>i. (map (joint_angle rd) (fst (motors s)) ! i - fst (jl ! i)) /
                    (snd (jl ! i) - fst (jl ! i)) * 2 - 1) [0..<6])"
    by (rule normalize_pos_ok [OF assms]) (simp add: len)
  moreover have "map (\<lambda>i. (map (joint_angle rd) (fst (motors s)) ! i - fst (jl ! i)) /
                    (snd (jl ! i) - fst (jl ! i)) * 2 - 1) [0..<6] =
      map (\<lambda>i. (joint_angle rd (fst (motors s) ! i) - fst (jl ! i)) /
                    (snd (jl ! i) - fst (jl ! i)) * 2 - 1) [0..<6]"
    by (rule map_cong [OF refl]) (simp add: len)
  ultimately show ?thesis by (simp add: self_observe_def Let_def)
qed

lemma position_target_append:
  "position_target (xs @ ys) m =
     (case position_target ys m of Some v \<Rightarrow> Some v | None \<Rightarrow> position_target xs m)"
  by (induction xs) (auto split: option.splits sim_call.splits)

lemma position_target_untouched:
  "\<forall>c\<in>set cs. \<not> commands ms c \<Longrightarrow> m \<in> set ms \<Longrightarrow> position_target cs m = None"
  by (induction cs) (auto simp: commands_def split: option.splits sim_call.splits)

lemma commands_mono: "set ms \<subseteq> set ms' \<Longrightarrow> commands ms c \<Longrightarrow> commands ms' c"
  by (cases c) (auto simp: commands_def)

lemma gotoPos_loop_frame:
  "gotoPos_loop s pos ims = (r, s1) \<Longrightarrow>
   same_attrs s s1 \<and> frames_after_hit s1 = frames_after_hit s \<and>
   observation s1 = observation s \<and>
   (\<exists>new. venv s1 = venv s @ new \<and> (\<forall>c\<in>set new. commands (map snd ims) c))"
proof (induction ims arbitrary: s)
  case Nil
  then show ?case by (auto simp: same_attrs_def)
next
  case (Cons im ims)
  obtain i m where im: "im = (i, m)" by (cases im)
  show ?case
  proof (cases "length pos \<le> i")
    case True
    with Cons.prems im show ?thesis by (auto simp: same_attrs_def)
  next
    case False
    let ?s' = "set_position_target m (pos ! i) s"
    from False Cons.prems im have "gotoPos_loop ?s' pos ims = (r, s1)" by simp
    from Cons.IH [OF this] obtain new where
      a: "same_attrs ?s' s1" "frames_after_hit s1 = frames_after_hit ?s'"
         "observation s1 = observation ?s'" and
      v: "venv s1 = venv ?s' @ new" "\<forall>c\<in>set new. commands (map snd ims) c"
      by blast
    have "venv s1 = venv s @ (SetPositionTarget m (pos ! i) # new)"
      using v(1) by (simp add: set_position_target_fields)
    moreover have "commands (map snd (im # ims)) (SetPositionTarget m (pos ! i))"
      using im by (simp add: commands_def)
    moreover have "\<forall>c\<in>set new. commands (map snd (im # ims)) c"
      using v(2) by (auto intro: commands_mono [of "map snd ims"])
    ultimately have "\<exists>new'. venv s1 = venv s @ new' \<and>
        (\<forall>c\<in>set new'. commands (map snd (im # ims)) c)"
      by (intro exI [of _ "SetPositionTarget m (pos ! i) # new"]) simp
    then show ?thesis
      using a by (simp add: same_attrs_def set_position_target_fields)
  qed
qed

lemma gotoPos_frame:
  assumes "gotoPos s pos = (r, s1)"
  shows "same_attrs s s1 \<and> frames_after_hit s1 = frames_after_hit s \<and>
   observation s1 = observation s \<and>
   (\<exists>new. venv s1 = venv s @ new \<and> (\<forall>c\<in>set new. commands (fst (motors s)) c))"
  using gotoPos_loop_frame [OF assms [unfolded gotoPos_def]] by simp

lemma self_observe_frame:
  "self_observe jl s rd = (r, s1) \<Longrightarrow>
   same_attrs s s1 \<and> frames_after_hit s1 = frames_after_hit s \<and> venv s1 = venv s"
  by (auto simp: self_observe_def same_attrs_def Let_def split: sum.splits)

lemma getReward_frame:
  "getReward s rd = (r, s1) \<Longrightarrow>
   same_attrs s s1 \<and> observation s1 = observation s \<and> venv s1 = venv s"
  by (auto simp: getReward_def same_attrs_def Let_def split: if_splits)

lemma getReward_counter:
  "frames_after_hit s \<in> {-1, 0, 1, 2} \<Longrightarrow>
   frames_after_hit (snd (getReward s rd)) \<in> {-1, 0, 1, 2}"
  by (auto simp: getReward_cases)

lemma same_attrs_trans: "same_attrs a b \<Longrightarrow> same_attrs b c \<Longrightarrow> same_attrs a c"
  by (simp add: same_attrs_def)

lemma same_attrs_refl: "same_attrs a a"
  by (simp add: same_attrs_def)

lemma step_frame:
  "same_attrs s (snd (step jl s actions rd)) \<and>
   (\<exists>new. venv (snd (step jl s actions rd)) = venv s @ new \<and>
      (\<forall>c\<in>set new. c = StepBlockingSimulation \<or> commands (fst (motors s)) c))"
proof (cases "denormalize jl s (clip actions (-1) 1)")
  case (Inl e)
  then show ?thesis by (simp add: step_def same_attrs_refl)
next
  case (Inr targets)
  obtain r1 s1 where g: "gotoPos s targets = (r1, s1)" by (cases "gotoPos s targets")
  from gotoPos_frame [OF g] obtain new where
    a1: "same_attrs s s1" and v1: "venv s1 = venv s @ new"
      "\<forall>c\<in>set new. commands (fst (motors s)) c"
    by blast
  show ?thesis
  proof (cases r1)
    case (Inl e)
    with Inr g a1 v1 show ?thesis by (auto simp: step_def)
  next
    case r1: (Inr u)
    let ?s2 = "step_blocking_simulation s1"
    obtain r3 s3 where o: "self_observe jl ?s2 rd = (r3, s3)"
      by (cases "self_observe jl ?s2 rd")
    from self_observe_frame [OF o] have a3: "same_attrs ?s2 s3" and v3: "venv s3 = venv ?s2"
      by simp_all
    have a2: "same_attrs s1 ?s2" by (simp add: same_attrs_def sim_call_fields step_blocking_simulation_def)
    have a03: "same_attrs s s3" using a1 a2 a3 by (blast intro: same_attrs_trans)
    have v03: "venv s3 = venv s @ (new @ [StepBlockingSimulation])"
      using v1(1) v3 by (simp add: sim_call_fields)
    have c03: "\<forall>c\<in>set (new @ [StepBlockingSimulation]).
        c = StepBlockingSimulation \<or> commands (fst (motors s)) c"
      using v1(2) by auto
    obtain reward s4 where gr: "getReward s3 rd = (reward, s4)" by (cases "getReward s3 rd")
    from getReward_frame [OF gr] have a4: "same_attrs s3 s4" and v4: "venv s4 = venv s3"
      by simp_all
    have a04: "same_attrs s s4" using a03 a4 by (rule same_attrs_trans)
    have "snd (step jl s actions rd) = s3 \<or> snd (step jl s actions rd) = s4"
      using Inr g r1 o gr by (auto simp: step_def Let_def split: sum.splits option.splits)
    then show ?thesis
      using a03 a04 v03 v4 c03 by metis
  qed
qed

lemma step_counter:
  assumes "frames_after_hit s \<in> {-1, 0, 1, 2}"
  shows "frames_after_hit (snd (step jl s actions rd)) \<in> {-1, 0, 1, 2}"
proof (cases "denormalize jl s (clip actions (-1) 1)")
  case (Inl e)
  then show ?thesis using assms by (simp add: step_def)
next
  case (Inr targets)
  obtain r1 s1 where g: "gotoPos s targets = (r1, s1)" by (cases "gotoPos s targets")
  from gotoPos_frame [OF g] have f1: "frames_after_hit s1 = frames_after_hit s" by blast
  show ?thesis
  proof (cases r1)
    case (Inl e)
    with Inr g f1 assms show ?thesis by (simp add: step_def)
  next
    case r1: (Inr u)
    let ?s2 = "step_blocking_simulation s1"
    obtain r3 s3 where o: "self_observe jl ?s2 rd = (r3, s3)"
      by (cases "self_observe jl ?s2 rd")
    from self_observe_frame [OF o] f1 have f3: "frames_after_hit s3 = frames_after_hit s"
      by (simp add: sim_call_fields)
    have "snd (step jl s actions rd) = s3 \<or> snd (step jl s actions rd) = snd (getReward s3 rd)"
      using Inr g r1 o by (auto simp: step_def Let_def split: sum.splits option.splits prod.splits)
    then show ?thesis
      using f3 assms getReward_counter [of s3 rd] by auto
  qed
qed

lemma enumerate_nth: "enumerate 0 xs = map (\<lambda>i. (i, xs ! i)) [0..<length xs]"
proof -
  have "enumerate 0 (map ((!) xs) [0..<length xs]) = map (\<lambda>i. (i, xs ! i)) [0..<length xs]"
    by (rule enumerate_map_upt)
  then show ?thesis by (simp add: map_nth)
qed

lemma diffs_loop_ok:
  "\<forall>i\<in>set is. i < length jl \<Longrightarrow>
   diffs_loop jl is = Inr (map (\<lambda>i. snd (jl ! i) - fst (jl ! i)) is)"
  by (induction "is") simp_all

lemma diffs_loop_short:
  "diffs_loop jl is = Inr ds \<Longrightarrow> \<forall>i\<in>set is. i < length jl"
  by (induction "is" arbitrary: ds) (auto split: if_splits sum.splits)

lemma init_valid:
  assumes "init jl hl = Inr s"
  shows "valid_env jl s \<and> frames_after_hit s = -1 \<and> done_attr s = None"
proof -
  from assms obtain ds where ds: "diffs_loop jl [0..<6] = Inr ds"
    by (auto simp: init_def split: sum.splits)
  then have b: "\<forall>i\<in>set [0..<6]. i < length jl" by (rule diffs_loop_short)
  then have "6 \<le> length jl" by (auto simp: not_less [symmetric])
  moreover have "ds = map (\<lambda>i. snd (jl ! i) - fst (jl ! i)) [0..<6]"
    using diffs_loop_ok [OF b] ds by simp
  ultimately show ?thesis
    using assms ds by (auto simp: init_def valid_env_def)
qed

lemma same_attrs_valid: "same_attrs s s' \<Longrightarrow> valid_env jl s \<Longrightarrow> valid_env jl s'"
  by (simp add: same_attrs_def valid_env_def)

lemma step_valid: "valid_env jl s \<Longrightarrow> valid_env jl (snd (step jl s actions rd))"
  using step_frame [of s jl actions rd] by (blast intro: same_attrs_valid)

lemma step_done: "done_attr (snd (step jl s actions rd)) = done_attr s"
  using step_frame [of s jl actions rd] by (simp add: same_attrs_def)

lemma step_ok:
  assumes "valid_env jl s" and "limits_ok jl" and "6 \<le> length actions"
  shows "\<exists>ob s3. frames_after_hit s3 = frames_after_hit s \<and>
     step jl s actions rd =
       ((case done_attr s of None \<Rightarrow> Inl AttributeError
         | Some d \<Rightarrow> Inr (ob, fst (getReward s3 rd), d, [])),
        snd (getReward s3 rd))"
proof -
  have len: "length (fst (motors s)) = 6"
    using assms(1) by (simp add: valid_env_def length_robot_motors)
  obtain targets where d: "denormalize jl s (clip actions (-1) 1) = Inr targets"
    and lt: "length targets = 6"
    using denormalize_ok [OF assms(1), of "clip actions (-1) 1"] assms(3)
    by (simp add: clip_def)
  obtain s1 where g: "gotoPos s targets = (Inr (), s1)"
    using gotoPos_ok [of s targets] len lt by simp
  from gotoPos_frame [OF g] have a1: "same_attrs s s1"
    and f1: "frames_after_hit s1 = frames_after_hit s" by simp_all
  let ?s2 = "step_blocking_simulation s1"
  have a2: "same_attrs s ?s2"
    using a1 by (simp add: same_attrs_def sim_call_fields step_blocking_simulation_def)
  then have v2: "valid_env jl ?s2" using assms(1) by (rule same_attrs_valid)
  obtain ob s3 where o: "self_observe jl ?s2 rd = (Inr (), s3)" and ob: "observation s3 = Some ob"
    using self_observe_ok [OF v2 assms(2), of rd] by simp
  from self_observe_frame [OF o] have a3: "same_attrs ?s2 s3"
    and f3: "frames_after_hit s3 = frames_after_hit ?s2" by simp_all
  obtain reward s4 where gr: "getReward s3 rd = (reward, s4)" by (cases "getReward s3 rd")
  from getReward_frame [OF gr] have a4: "same_attrs s3 s4" by simp
  have dn: "done_attr s4 = done_attr s"
    using a2 a3 a4 by (simp add: same_attrs_def)
  have "step jl s actions rd =
       ((case done_attr s of None \<Rightarrow> Inl AttributeError
         | Some d \<Rightarrow> Inr (ob, fst (getReward s3 rd), d, [])),
        snd (getReward s3 rd))"
    using d g o ob gr dn by (simp add: step_def Let_def split: option.splits)
  moreover have "frames_after_hit s3 = frames_after_hit s"
    using f3 f1 by (simp add: sim_call_fields)
  ultimately show ?thesis by blast
qed

lemma step_venv:
  assumes "valid_env jl s" and "6 \<le> length actions"
    and "denormalize jl s (clip actions (-1) 1) = Inr targets"
  shows "venv (snd (step jl s actions rd)) =
     venv s @ map (\<lambda>i. SetPositionTarget (fst (motors s) ! i) (targets ! i)) [0..<6] @
     [StepBlockingSimulation]"
proof -
  have len: "length (fst (motors s)) = 6"
    using assms(1) by (simp add: valid_env_def length_robot_motors)
  have lt: "length targets = 6"
    using denormalize_ok [OF assms(1), of "clip actions (-1) 1"] assms(2,3)
    by (auto simp: clip_def)
  let ?new = "map (\<lambda>i. SetPositionTarget (fst (motors s) ! i) (targets ! i)) [0..<6]"
  let ?s1 = "s\<lparr>venv := venv s @ ?new\<rparr>"
  have g: "gotoPos s targets = (Inr (), ?s1)"
    using gotoPos_ok [of s targets] len lt by (simp add: enumerate_nth o_def)
  let ?s2 = "step_blocking_simulation ?s1"
  obtain r3 s3 where o: "self_observe jl ?s2 rd = (r3, s3)"
    by (cases "self_observe jl ?s2 rd")
  from self_observe_frame [OF o] have v3: "venv s3 = venv ?s2" by simp
  obtain reward s4 where gr: "getReward s3 rd = (reward, s4)" by (cases "getReward s3 rd")
  from getReward_frame [OF gr] have v4: "venv s4 = venv s3" by simp
  have "snd (step jl s actions rd) = s3 \<or> snd (step jl s actions rd) = s4"
    using assms(3) g o gr by (auto simp: step_def Let_def split: sum.splits option.splits)
  then show ?thesis
    using v3 v4 by (auto simp: sim_call_fields)
qed

lemma settle_steps:
  "(step_blocking_simulation ^^ n) s = s\<lparr>venv := venv s @ replicate n StepBlockingSimulation\<rparr>"
proof (induction n)
  case 0
  show ?case by simp
next
  case (Suc n)
  then show ?case
    by (simp add: step_blocking_simulation_def replicate_append_same)
qed

lemma restPos_ok:
  assumes "valid_env jl s"
  shows "restPos s rnd =
    (Inr (), s\<lparr>venv := venv s @ reset_trace s rnd, done_attr := Some False\<rparr>)"
proof -
  have len: "length (fst (motors s)) = 6" "length (snd (motors s)) = 6"
    using assms by (simp_all add: valid_env_def length_robot_motors)
  let ?s3 = "start_simulation True (stop_simulation (s\<lparr>done_attr := Some False\<rparr>))"
  have m3: "motors ?s3 = motors s" by (simp add: sim_call_fields)
  let ?s4 = "?s3\<lparr>venv := venv ?s3 @
     map (\<lambda>i. SetPositionTarget (fst (motors s) ! i) (Flt (real_of_int (REST_POS ! i)))) [0..<6]\<rparr>"
  have r: "rest_loop ?s3 (enumerate 0 (fst (motors ?s3))) = (Inr (), ?s4)"
  proof -
    have "\<forall>(i, m)\<in>set (enumerate 0 (fst (motors ?s3))). i < length REST_POS"
      using len by (auto simp: m3 length_REST_POS dest: enumerate_bound)
    from rest_loop_ok [OF this] show ?thesis
      using len by (simp add: m3 enumerate_nth o_def)
  qed
  let ?s5 = "?s4\<lparr>venv := venv ?s4 @
     map (\<lambda>i. SetPositionTarget (snd (motors s) ! i) (Flt (real_of_int (REST_POS ! i + noise rnd i))))
       [0..<6]\<rparr>"
  have z: "randomize ?s4 rnd = (Inr (), ?s5)"
  proof -
    have "randomize_loop ?s4 rnd [0..<6] = (Inr (), ?s4\<lparr>venv := venv ?s4 @
        map (\<lambda>i. SetPositionTarget (snd (motors ?s4) ! i)
              (Flt (real_of_int (REST_POS ! i + noise rnd i)))) [0..<6]\<rparr>)"
      by (rule randomize_loop_ok) (simp_all add: len sim_call_fields)
    then show ?thesis by (simp add: randomize_def sim_call_fields)
  qed
  have "restPos s rnd = (Inr (), (step_blocking_simulation ^^ 15) ?s5)"
    by (simp only: restPos_def Let_def r z prod.case sum.case)
  then show ?thesis
    by (simp add: settle_steps reset_trace_def stop_simulation_def start_simulation_def)
qed

lemma reset_ok:
  assumes "valid_env jl s" and "limits_ok jl"
  shows "\<exists>ob. reset jl s rnd rd =
    (Inr ob, s\<lparr>venv := venv s @ reset_trace s rnd, frames_after_hit := -1,
               done_attr := Some False, observation := Some ob\<rparr>)"
proof -
  let ?s1 = "s\<lparr>venv := venv s @ reset_trace s rnd, done_attr := Some False\<rparr>"
  have v1: "valid_env jl ?s1" using assms(1) by (simp add: valid_env_def)
  from self_observe_ok [OF v1 assms(2), of rd] obtain ob where
    "self_observe jl ?s1 rd = (Inr (), ?s1\<lparr>observation := Some ob\<rparr>)"
    by blast
  then have "reset jl s rnd rd =
    (Inr ob, s\<lparr>venv := venv s @ reset_trace s rnd, frames_after_hit := -1,
               done_attr := Some False, observation := Some ob\<rparr>)"
    by (simp add: reset_def restPos_ok [OF assms(1)])
  then show ?thesis ..
qed

subsection \<open>The sample inputs are well formed\<close>

lemma upt_6: "[0..<6] = [0, Suc 0, 2, 3, 4, 5]"
  by (simp add: upt_rec)

lemma sample_init: "init sample_limits True = Inr sample_env"
  by (simp add: init_def sample_limits_def sample_env_def upt_6)

lemma sample_valid: "valid_env sample_limits sample_env"
  using sample_init by (simp add: init_valid)

lemma sample_limits_ok: "limits_ok sample_limits"
  by (simp add: limits_ok_def sample_limits_def upt_6)

lemma sample_limits_ordered: "limits_ordered sample_limits"
  by (simp add: limits_ordered_def sample_limits_def upt_6)

lemma sample_actions_length: "length sample_actions = 6"
  by (simp add: sample_actions_def)

subsection \<open>The two affine maps\<close>

lemma limits_orderedD: "limits_ordered jl \<Longrightarrow> i < 6 \<Longrightarrow> fst (jl ! i) \<le> snd (jl ! i)"
  by (simp add: limits_ordered_def list_all_iff)

lemma affine_roundtrip:
  fixes x lo hi :: real
  assumes "lo < hi"
  shows "(((x - lo) / (hi - lo) * 2 - 1) + 1) / 2 * (hi - lo) + lo = x"
  using assms by (simp add: field_simps)

lemma affine_normalized:
  fixes x lo hi :: real
  assumes "lo < hi" and "lo \<le> x" and "x \<le> hi"
  shows "-1 \<le> (x - lo) / (hi - lo) * 2 - 1 \<and> (x - lo) / (hi - lo) * 2 - 1 \<le> 1"
proof -
  define t where "t = (x - lo) / (hi - lo)"
  have "0 \<le> t" using assms by (simp add: t_def)
  moreover have "t \<le> 1" using assms by (simp add: t_def field_simps)
  ultimately have "-1 \<le> t * 2 - 1 \<and> t * 2 - 1 \<le> 1" by linarith
  then show ?thesis by (simp only: t_def)
qed

lemma affine_denormalized:
  fixes a lo hi :: real
  assumes "lo \<le> hi" and "-1 \<le> a" and "a \<le> 1"
  shows "lo \<le> (a + 1) / 2 * (hi - lo) + lo \<and> (a + 1) / 2 * (hi - lo) + lo \<le> hi"
proof -
  define u where "u = (a + 1) / 2"
  define w where "w = hi - lo"
  have u: "0 \<le> u" "u \<le> 1" using assms by (simp_all add: u_def)
  have w: "0 \<le> w" using assms by (simp add: w_def)
  have "0 \<le> u * w" using u(1) w by (rule mult_nonneg_nonneg)
  moreover have "u * w \<le> 1 * w" using u(2) w by (rule mult_right_mono)
  ultimately have "lo \<le> u * w + lo \<and> u * w + lo \<le> hi" by (simp add: w_def)
  then show ?thesis by (simp only: u_def w_def)
qed

subsection \<open>Clamping and runs of steps\<close>

lemma clip_bounds:
  "i < length a \<Longrightarrow> a ! i \<noteq> NaN \<Longrightarrow>
   \<exists>x. clip a (-1) 1 ! i = Flt x \<and> -1 \<le> x \<and> x \<le> 1"
  by (cases "a ! i") (simp_all add: clip_def)

lemma clip_nan: "i < length a \<Longrightarrow> a ! i = NaN \<Longrightarrow> clip a (-1) 1 ! i = NaN"
  by (simp add: clip_def)

lemma run_steps_flag:
  assumes "valid_env jl s" and "limits_ok jl" and "done_attr s = Some False"
    and "list_all (\<lambda>(a, rd). 6 \<le> length a) inputs"
  shows "length (fst (run_steps jl s inputs)) = length inputs \<and>
     (\<forall>r\<in>set (fst (run_steps jl s inputs)). \<exists>ob reward. r = Inr (ob, reward, False, [])) \<and>
     done_attr (snd (run_steps jl s inputs)) = Some False"
  using assms
proof (induction inputs arbitrary: s)
  case Nil
  then show ?case by simp
next
  case (Cons x inputs)
  obtain a rd where x: "x = (a, rd)" by (cases x)
  have la: "6 \<le> length a" using Cons.prems(4) x by simp
  obtain r s' where st: "step jl s a rd = (r, s')" by (cases "step jl s a rd")
  have "valid_env jl s'" using step_valid [OF Cons.prems(1), of a rd] st by simp
  moreover have "done_attr s' = Some False"
    using step_done [of jl s a rd] st Cons.prems(3) by simp
  moreover have "list_all (\<lambda>(a, rd). 6 \<le> length a) inputs" using Cons.prems(4) by simp
  ultimately have ih: "length (fst (run_steps jl s' inputs)) = length inputs \<and>
     (\<forall>r\<in>set (fst (run_steps jl s' inputs)). \<exists>ob reward. r = Inr (ob, reward, False, [])) \<and>
     done_attr (snd (run_steps jl s' inputs)) = Some False"
    using Cons.prems(2) by (intro Cons.IH)
  from step_ok [OF Cons.prems(1,2) la, of rd] obtain ob s3 where
    "step jl s a rd = (Inr (ob, fst (getReward s3 rd), False, []), snd (getReward s3 rd))"
    using Cons.prems(3) by auto
  with st have r: "\<exists>ob reward. r = Inr (ob, reward, False, [])" by auto
  show ?case
    using ih r by (auto simp: x st split: prod.splits)
qed

subsection \<open>Arm B and the trace of a reset\<close>

lemma robot_motors_nth: "i < 6 \<Longrightarrow> robot_motors r ! i = Motor (r + 1) (i + 1)"
  by (simp add: robot_motors_def)

lemma robot_motors_set: "m \<in> set (robot_motors r) \<Longrightarrow> \<exists>k. m = Motor (r + 1) k"
  by (auto simp: robot_motors_def)

lemma arms_disjoint:
  assumes "valid_env jl s" and "commands (fst (motors s)) c"
  shows "\<not> commands (snd (motors s)) c"
proof (cases c)
  case (SetPositionTarget m v)
  with assms(2) have "m \<in> set (robot_motors 0)"
    using assms(1) by (simp add: commands_def valid_env_def)
  then obtain k where "m = Motor 1 k" by (auto dest: robot_motors_set)
  then have "m \<notin> set (robot_motors 1)" by (auto dest: robot_motors_set)
  then show ?thesis
    using assms(1) SetPositionTarget by (simp add: commands_def valid_env_def)
qed (simp_all add: commands_def)

lemma step_arm_b:
  assumes "valid_env jl s"
  shows "\<exists>new. venv (snd (step jl s actions rd)) = venv s @ new \<and>
     (\<forall>c\<in>set new. \<not> commands (snd (motors s)) c)"
proof -
  from step_frame [of s jl actions rd] obtain new where
    v: "venv (snd (step jl s actions rd)) = venv s @ new" and
    c: "\<forall>c\<in>set new. c = StepBlockingSimulation \<or> commands (fst (motors s)) c"
    by blast
  have "\<not> commands (snd (motors s)) c" if "c \<in> set new" for c
  proof (cases "c = StepBlockingSimulation")
    case True
    then show ?thesis by (simp add: commands_def)
  next
    case False
    with c that have "commands (fst (motors s)) c" by blast
    with assms show ?thesis by (rule arms_disjoint)
  qed
  with v show ?thesis by blast
qed

lemma run_steps_arm_b:
  assumes "valid_env jl s"
  shows "\<exists>new. venv (snd (run_steps jl s inputs)) = venv s @ new \<and>
     (\<forall>c\<in>set new. \<not> commands (snd (motors s)) c)"
  using assms
proof (induction inputs arbitrary: s)
  case Nil
  then show ?case by simp
next
  case (Cons x inputs)
  obtain a rd where x: "x = (a, rd)" by (cases x)
  let ?s' = "snd (step jl s a rd)"
  from step_arm_b [OF Cons.prems, of a rd] obtain new1 where
    n1: "venv ?s' = venv s @ new1" "\<forall>c\<in>set new1. \<not> commands (snd (motors s)) c"
    by blast
  have v': "valid_env jl ?s'" using Cons.prems by (rule step_valid)
  have m': "motors ?s' = motors s"
    using step_frame [of s jl a rd] by (simp add: same_attrs_def)
  from Cons.IH [OF v'] obtain new2 where
    n2: "venv (snd (run_steps jl ?s' inputs)) = venv ?s' @ new2"
      "\<forall>c\<in>set new2. \<not> commands (snd (motors ?s')) c"
    by blast
  have "snd (run_steps jl s (x # inputs)) = snd (run_steps jl ?s' inputs)"
    by (simp add: x split: prod.splits)
  then have "venv (snd (run_steps jl s (x # inputs))) = venv s @ (new1 @ new2)"
    using n1(1) n2(1) by simp
  moreover have "\<forall>c\<in>set (new1 @ new2). \<not> commands (snd (motors s)) c"
    using n1(2) n2(2) m' by auto
  ultimately show ?case by blast
qed

lemma reset_valid:
  assumes "valid_env jl s" and "limits_ok jl"
  shows "valid_env jl (snd (reset jl s rnd rd))"
proof -
  from reset_ok [OF assms, of rnd rd] obtain ob where
    "snd (reset jl s rnd rd) =
      s\<lparr>venv := venv s @ reset_trace s rnd, frames_after_hit := -1,
               done_attr := Some False, observation := Some ob\<rparr>"
    by force
  then show ?thesis using assms(1) by (simp add: valid_env_def)
qed

lemma reset_done:
  assumes "valid_env jl s" and "limits_ok jl"
  shows "done_attr (snd (reset jl s rnd rd)) = Some False"
proof -
  from reset_ok [OF assms, of rnd rd] obtain ob where
    "snd (reset jl s rnd rd) =
      s\<lparr>venv := venv s @ reset_trace s rnd, frames_after_hit := -1,
               done_attr := Some False, observation := Some ob\<rparr>"
    by force
  then show ?thesis by simp
qed

lemma reset_venv:
  assumes "valid_env jl s"
  shows "venv (snd (reset jl s rnd rd)) = venv s @ reset_trace s rnd"
proof -
  let ?s1 = "s\<lparr>venv := venv s @ reset_trace s rnd, done_attr := Some False\<rparr>"
  obtain r2 s2 where o: "self_observe jl ?s1 rd = (r2, s2)"
    by (cases "self_observe jl ?s1 rd")
  from self_observe_frame [OF o] have "venv s2 = venv ?s1" by simp
  then show ?thesis
    using o by (auto simp: reset_def restPos_ok [OF assms] Let_def split: sum.splits option.splits)
qed

lemma position_target_steps: "position_target (replicate n StepBlockingSimulation) m = None"
  by (induction n) simp_all

lemma position_target_absent:
  "m \<notin> g ` set is \<Longrightarrow> position_target (map (\<lambda>i. SetPositionTarget (g i) (f i)) is) m = None"
  by (induction "is") auto

lemma position_target_map:
  "inj_on g (set is) \<Longrightarrow> i \<in> set is \<Longrightarrow>
   position_target (map (\<lambda>i. SetPositionTarget (g i) (f i)) is) (g i) = Some (f i)"
proof (induction "is")
  case Nil
  then show ?case by simp
next
  case (Cons j "is")
  show ?case
  proof (cases "i \<in> set is")
    case True
    moreover have "inj_on g (set is)" using Cons.prems(1) by simp
    ultimately have "position_target (map (\<lambda>i. SetPositionTarget (g i) (f i)) is) (g i) = Some (f i)"
      by (intro Cons.IH)
    then show ?thesis by simp
  next
    case False
    with Cons.prems(2) have ij: "i = j" by simp
    have "g i \<notin> g ` set is"
    proof
      assume "g i \<in> g ` set is"
      then obtain k where "k \<in> set is" and "g i = g k" by blast
      with Cons.prems(1) ij have "i = k" by (auto dest: inj_onD)
      with \<open>k \<in> set is\<close> False show False by simp
    qed
    then have "position_target (map (\<lambda>i. SetPositionTarget (g i) (f i)) is) (g i) = None"
      by (rule position_target_absent)
    then show ?thesis by (simp add: ij)
  qed
qed

lemma noise_bounds:
  assumes "i < 6"
  shows "fst (RANDOM_NOISE ! i) \<le> noise rnd i \<and> noise rnd i < snd (RANDOM_NOISE ! i)"
proof -
  let ?w = "snd (RANDOM_NOISE ! i) - fst (RANDOM_NOISE ! i)"
  have "0 < ?w" using noise_range [OF assms] by simp
  then have "0 \<le> int (rnd i) mod ?w" and "int (rnd i) mod ?w < ?w"
    by (simp_all only: pos_mod_sign pos_mod_bound)
  then show ?thesis by (simp add: noise_def)
qed

lemma noise_attained:
  assumes "fst (RANDOM_NOISE ! j) \<le> vs ! j" and "vs ! j < snd (RANDOM_NOISE ! j)"
  shows "noise (\<lambda>j. nat (vs ! j - fst (RANDOM_NOISE ! j))) j = vs ! j"
proof -
  let ?lo = "fst (RANDOM_NOISE ! j)" and ?hi = "snd (RANDOM_NOISE ! j)"
  have "int (nat (vs ! j - ?lo)) = vs ! j - ?lo" using assms(1) by simp
  moreover have "(vs ! j - ?lo) mod (?hi - ?lo) = vs ! j - ?lo"
    using assms by (simp add: mod_pos_pos_trivial)
  ultimately show ?thesis by (simp add: noise_def)
qed

lemma reset_target:
  assumes "valid_env jl s" and "i < 6"
  shows "position_target (venv (snd (reset jl s rnd rd))) (snd (motors s) ! i) =
    Some (Flt (real_of_int (REST_POS ! i + noise rnd i)))"
proof -
  let ?g = "\<lambda>i. snd (motors s) ! i"
  let ?f = "\<lambda>i. Flt (real_of_int (REST_POS ! i + noise rnd i))"
  have mb: "snd (motors s) = robot_motors 1" using assms(1) by (simp add: valid_env_def)
  have "inj_on ?g (set [0..<6])"
    by (rule inj_onI) (simp add: mb robot_motors_nth)
  moreover have "i \<in> set [0..<6]" using assms(2) by simp
  ultimately have b: "position_target (map (\<lambda>i. SetPositionTarget (?g i) (?f i)) [0..<6]) (?g i) =
      Some (?f i)"
    by (rule position_target_map)
  show ?thesis
    by (simp only: reset_venv [OF assms(1)] reset_trace_def position_target_append
        position_target_steps b option.case)
qed

section \<open>The claims\<close>

text \<open>
  C1. The claim: on a step with the swords colliding and the cooldown counter at 0, 1 or 2,
  the reward is 0 and the counter is left as it was. The reward computation does give
  reward 0 there, but it takes the \<^verbatim>\<open>else\<close> branch, whose comment reads "if it's not
  hitting anything right now", and advances the counter: with the counter at 0 and the
  swords in contact, the counter becomes 1. So contact that is held from an eligible
  state is rewarded again on the fifth reward computation, against the comment "Just
  touching and holding doesn't work".
\<close>

theorem colliding_while_cooling_advances:
  "getReward (sample_env\<lparr>frames_after_hit := 0\<rparr>) sample_reading =
     (0, sample_env\<lparr>frames_after_hit := 1\<rparr>) \<and>
   fst (getReward (snd (getReward (snd (getReward (snd (getReward (snd (getReward
     sample_env sample_reading)) sample_reading)) sample_reading)) sample_reading))
     sample_reading) = 1"
  by (simp add: getReward_def INVULNERABILITY_AFTER_HIT_def sample_reading_def sample_env_def)

text \<open>
  C2. The cooldown counter is always one of -1, 0, 1, 2: it is -1 in a freshly constructed
  object, a reset returns and leaves it at -1, and every step call, whether it returns or
  raises, takes a counter among -1, 0, 1, 2 to a counter among -1, 0, 1, 2.
\<close>

theorem counter_invariant:
  "(init jl hl = Inr s0 \<longrightarrow> frames_after_hit s0 = -1) \<and>
   (valid_env jl s \<and> limits_ok jl \<longrightarrow>
      (\<exists>ob. fst (reset jl s rnd rd) = Inr ob) \<and> frames_after_hit (snd (reset jl s rnd rd)) = -1) \<and>
   (frames_after_hit s \<in> {-1, 0, 1, 2} \<longrightarrow>
      frames_after_hit (snd (step jl s actions rd)) \<in> {-1, 0, 1, 2})"
proof (intro conjI impI)
  assume "init jl hl = Inr s0"
  then show "frames_after_hit s0 = -1" by (simp add: init_valid)
next
  assume a: "valid_env jl s \<and> limits_ok jl"
  then obtain ob where "reset jl s rnd rd =
    (Inr ob, s\<lparr>venv := venv s @ reset_trace s rnd, frames_after_hit := -1,
               done_attr := Some False, observation := Some ob\<rparr>)"
    using reset_ok [of jl s rnd rd] by blast
  then show "\<exists>ob. fst (reset jl s rnd rd) = Inr ob"
    and "frames_after_hit (snd (reset jl s rnd rd)) = -1" by simp_all
next
  assume "frames_after_hit s \<in> {-1, 0, 1, 2}"
  then show "frames_after_hit (snd (step jl s actions rd)) \<in> {-1, 0, 1, 2}"
    by (rule step_counter)
qed

theorem counter_invariant_witness:
  "init sample_limits True = Inr sample_env \<and>
   valid_env sample_limits sample_env \<and> limits_ok sample_limits \<and>
   frames_after_hit sample_env \<in> {-1, 0, 1, 2} \<and>
   frames_after_hit sample_env = -1 \<and>
   frames_after_hit (snd (reset sample_limits sample_env sample_rnd sample_reading)) = -1 \<and>
   frames_after_hit (snd (step sample_limits sample_env sample_actions sample_reading))
     \<in> {-1, 0, 1, 2}"
proof -
  have "frames_after_hit sample_env \<in> {-1, 0, 1, 2}" by (simp add: sample_env_def)
  then show ?thesis
    using sample_init sample_valid sample_limits_ok
      counter_invariant [of sample_limits True sample_env sample_env sample_rnd sample_reading
        sample_actions]
    by blast
qed

text \<open>
  C3. With a table whose limits satisfy \<open>min < max\<close> for every joint, normalising six
  native angles and denormalising the result both return, and at every joint index whose
  angle lies within that joint's limits the round trip gives the angle back and the
  normalised value lies in \<open>[-1, 1]\<close> (exact arithmetic).
\<close>

theorem normalize_denormalize_roundtrip:
  assumes "valid_env jl s" and "limits_ok jl" and "length pos = 6"
  shows "\<exists>n d. normalize_pos jl s pos = Inr n \<and> denormalize jl s (map Flt n) = Inr d \<and>
     (\<forall>i<6. fst (jl ! i) \<le> pos ! i \<and> pos ! i \<le> snd (jl ! i) \<longrightarrow>
        d ! i = Flt (pos ! i) \<and> -1 \<le> n ! i \<and> n ! i \<le> 1)"
proof -
  define n where
    "n = map (\<lambda>i. (pos ! i - fst (jl ! i)) / (snd (jl ! i) - fst (jl ! i)) * 2 - 1) [0..<6]"
  define d where
    "d = map (\<lambda>i. fl_add (fl_mul (fl_halve (fl_add (map Flt n ! i) (Flt 1)))
                       (Flt (snd (jl ! i) - fst (jl ! i))))
                     (Flt (fst (jl ! i)))) [0..<6]"
  have ln: "length n = 6" by (simp add: n_def)
  have n: "normalize_pos jl s pos = Inr n"
    using assms by (simp add: normalize_pos_ok n_def)
  have d: "denormalize jl s (map Flt n) = Inr d"
    unfolding d_def by (rule denormalize_ok [OF assms(1)]) (simp add: ln)
  have r: "d ! i = Flt (pos ! i) \<and> -1 \<le> n ! i \<and> n ! i \<le> 1"
    if i: "i < 6" and lo: "fst (jl ! i) \<le> pos ! i" and hi: "pos ! i \<le> snd (jl ! i)" for i
  proof -
    have lt: "fst (jl ! i) < snd (jl ! i)" using assms(2) i by (rule limits_okD)
    have ni: "n ! i = (pos ! i - fst (jl ! i)) / (snd (jl ! i) - fst (jl ! i)) * 2 - 1"
      using i by (simp add: n_def)
    have di: "d ! i = Flt ((n ! i + 1) / 2 * (snd (jl ! i) - fst (jl ! i)) + fst (jl ! i))"
      using i ln by (simp add: d_def)
    have "(n ! i + 1) / 2 * (snd (jl ! i) - fst (jl ! i)) + fst (jl ! i) = pos ! i"
      unfolding ni by (rule affine_roundtrip [OF lt])
    then have "d ! i = Flt (pos ! i)" by (simp only: di)
    moreover have "-1 \<le> n ! i \<and> n ! i \<le> 1"
      unfolding ni by (rule affine_normalized [OF lt lo hi])
    ultimately show ?thesis by simp
  qed
  show ?thesis
    using n d r by blast
qed

theorem normalize_denormalize_roundtrip_witness:
  "valid_env sample_limits sample_env \<and> limits_ok sample_limits \<and> length sample_pos = 6 \<and>
   (1::nat) < 6 \<and> fst (sample_limits ! 1) \<le> sample_pos ! 1 \<and>
   sample_pos ! 1 \<le> snd (sample_limits ! 1) \<and>
   (\<exists>n d. normalize_pos sample_limits sample_env sample_pos = Inr n \<and>
      denormalize sample_limits sample_env (map Flt n) = Inr d \<and>
      d ! 1 = Flt (sample_pos ! 1) \<and> -1 \<le> n ! 1 \<and> n ! 1 \<le> 1)"
proof -
  have len: "length sample_pos = 6" by (simp add: sample_pos_def)
  have one_lt: "(1::nat) < 6" by simp
  have rng: "fst (sample_limits ! 1) \<le> sample_pos ! 1 \<and> sample_pos ! 1 \<le> snd (sample_limits ! 1)"
    by (simp add: sample_limits_def sample_pos_def)
  from normalize_denormalize_roundtrip [OF sample_valid sample_limits_ok len]
  obtain n d where "normalize_pos sample_limits sample_env sample_pos = Inr n"
    and "denormalize sample_limits sample_env (map Flt n) = Inr d"
    and "\<forall>i<6. fst (sample_limits ! i) \<le> sample_pos ! i \<and> sample_pos ! i \<le> snd (sample_limits ! i) \<longrightarrow>
        d ! i = Flt (sample_pos ! i) \<and> -1 \<le> n ! i \<and> n ! i \<le> 1"
    by blast
  with rng have "\<exists>n d. normalize_pos sample_limits sample_env sample_pos = Inr n \<and>
      denormalize sample_limits sample_env (map Flt n) = Inr d \<and>
      d ! 1 = Flt (sample_pos ! 1) \<and> -1 \<le> n ! 1 \<and> n ! 1 \<le> 1"
    using one_lt by blast
  with sample_valid sample_limits_ok len rng show ?thesis by simp
qed

text \<open>
  C4, as amended. For every six-element action vector the step operation clamps every
  component that is not NaN, the infinite ones included, into \<open>[-1, 1]\<close>, and the
  denormalised value at each such joint index lies within that joint's limits; a NaN
  component passes the clamp unchanged and NaN is the value denormalised for its joint.
  Denormalisation of the clamped vector returns, and the position targets that the step
  call sends to the simulator are exactly the six denormalised values, to arm A's six
  motors. So no out-of-range target is commanded when the action vector has no NaN
  component. The joint-limit table is a parameter: its pairs are taken to be ordered,
  \<open>min \<le> max\<close>.
\<close>

theorem step_commands_within_limits:
  assumes "valid_env jl s" and "limits_ordered jl" and "length actions = 6"
  shows "\<exists>targets. denormalize jl s (clip actions (-1) 1) = Inr targets \<and>
     (\<forall>i<6. actions ! i \<noteq> NaN \<longrightarrow>
        (\<exists>x. clip actions (-1) 1 ! i = Flt x \<and> -1 \<le> x \<and> x \<le> 1) \<and>
        (\<exists>y. targets ! i = Flt y \<and> fst (jl ! i) \<le> y \<and> y \<le> snd (jl ! i))) \<and>
     (\<forall>i<6. actions ! i = NaN \<longrightarrow> clip actions (-1) 1 ! i = NaN \<and> targets ! i = NaN) \<and>
     venv (snd (step jl s actions rd)) =
       venv s @ map (\<lambda>i. SetPositionTarget (fst (motors s) ! i) (targets ! i)) [0..<6] @
       [StepBlockingSimulation]"
proof -
  let ?c = "clip actions (-1) 1"
  define targets where
    "targets = map (\<lambda>i. fl_add (fl_mul (fl_halve (fl_add (?c ! i) (Flt 1)))
                             (Flt (snd (jl ! i) - fst (jl ! i))))
                           (Flt (fst (jl ! i)))) [0..<6]"
  have len: "6 \<le> length ?c" using assms(3) by (simp add: clip_def)
  have d: "denormalize jl s ?c = Inr targets"
    unfolding targets_def using assms(1) len by (rule denormalize_ok)
  have ok: "(\<exists>x. ?c ! i = Flt x \<and> -1 \<le> x \<and> x \<le> 1) \<and>
      (\<exists>y. targets ! i = Flt y \<and> fst (jl ! i) \<le> y \<and> y \<le> snd (jl ! i))"
    if i: "i < 6" and nn: "actions ! i \<noteq> NaN" for i
  proof -
    have "i < length actions" using i assms(3) by simp
    from clip_bounds [OF this nn] obtain x where
      x: "?c ! i = Flt x" "-1 \<le> x" "x \<le> 1" by blast
    have ti: "targets ! i = Flt ((x + 1) / 2 * (snd (jl ! i) - fst (jl ! i)) + fst (jl ! i))"
      using i by (simp add: targets_def x(1))
    from affine_denormalized [OF limits_orderedD [OF assms(2) i] x(2,3)]
    show ?thesis using x ti by blast
  qed
  have nan: "?c ! i = NaN \<and> targets ! i = NaN" if i: "i < 6" and n: "actions ! i = NaN" for i
  proof -
    have "i < length actions" using i assms(3) by simp
    then have c: "?c ! i = NaN" using n by (rule clip_nan)
    then show ?thesis using i by (simp add: targets_def)
  qed
  have v: "venv (snd (step jl s actions rd)) =
       venv s @ map (\<lambda>i. SetPositionTarget (fst (motors s) ! i) (targets ! i)) [0..<6] @
       [StepBlockingSimulation]"
    using assms(1) _ d by (rule step_venv) (simp add: assms(3))
  show ?thesis
    using d ok nan v by blast
qed

theorem step_commands_within_limits_witness:
  "valid_env sample_limits sample_env \<and> limits_ordered sample_limits \<and>
   length sample_actions = 6 \<and> sample_actions ! 3 = PosInf \<and> sample_actions ! 3 \<noteq> NaN \<and>
   (\<exists>targets x y.
      denormalize sample_limits sample_env (clip sample_actions (-1) 1) = Inr targets \<and>
      clip sample_actions (-1) 1 ! 3 = Flt x \<and> -1 \<le> x \<and> x \<le> 1 \<and>
      targets ! 3 = Flt y \<and> fst (sample_limits ! 3) \<le> y \<and> y \<le> snd (sample_limits ! 3)) \<and>
   length nan_actions = 6 \<and> nan_actions ! 0 = NaN \<and>
   (\<exists>targets.
      denormalize sample_limits sample_env (clip nan_actions (-1) 1) = Inr targets \<and>
      clip nan_actions (-1) 1 ! 0 = NaN \<and> targets ! 0 = NaN)"
proof -
  have a: "sample_actions ! 3 = PosInf" "sample_actions ! 3 \<noteq> NaN"
    by (simp_all add: sample_actions_def)
  have b: "length nan_actions = 6" "nan_actions ! 0 = NaN" by (simp_all add: nan_actions_def)
  have i: "(3::nat) < 6" "(0::nat) < 6" by simp_all
  from step_commands_within_limits [OF sample_valid sample_limits_ordered sample_actions_length,
        of sample_reading] a(2) i(1)
  have one: "\<exists>targets x y.
      denormalize sample_limits sample_env (clip sample_actions (-1) 1) = Inr targets \<and>
      clip sample_actions (-1) 1 ! 3 = Flt x \<and> -1 \<le> x \<and> x \<le> 1 \<and>
      targets ! 3 = Flt y \<and> fst (sample_limits ! 3) \<le> y \<and> y \<le> snd (sample_limits ! 3)"
    by blast
  from step_commands_within_limits [OF sample_valid sample_limits_ordered b(1),
        of sample_reading] b(2) i(2)
  have two: "\<exists>targets.
      denormalize sample_limits sample_env (clip nan_actions (-1) 1) = Inr targets \<and>
      clip nan_actions (-1) 1 ! 0 = NaN \<and> targets ! 0 = NaN"
    by blast
  from sample_valid sample_limits_ordered sample_actions_length a b one two
  show ?thesis by blast
qed

text \<open>
  The claim as it was stated fails at an action vector whose first component is NaN: the
  clamped component is NaN, not a value of \<open>[-1, 1]\<close>, and NaN is the position target
  that the step call commands to arm A's first motor.
\<close>

theorem step_commands_nan_counterexample:
  "length nan_actions = 6 \<and>
   clip nan_actions (-1) 1 ! 0 = NaN \<and>
   denormalize sample_limits sample_env (clip nan_actions (-1) 1) =
     Inr [NaN, Flt (35 / 2), Flt 0, Flt 0, Flt 0, Flt 0] \<and>
   position_target
     (venv (snd (step sample_limits sample_env nan_actions sample_reading))) (Motor 1 1) =
     Some NaN"
proof -
  have l: "length nan_actions = 6" "6 \<le> length nan_actions" by (simp_all add: nan_actions_def)
  have c: "clip nan_actions (-1) 1 ! 0 = NaN" by (simp add: nan_actions_def clip_def)
  have d: "denormalize sample_limits sample_env (clip nan_actions (-1) 1) =
     Inr [NaN, Flt (35 / 2), Flt 0, Flt 0, Flt 0, Flt 0]"
    by (simp add: denormalize_def sample_env_def sample_limits_def nan_actions_def clip_def
        upt_6 Let_def)
  have "position_target
     (venv (snd (step sample_limits sample_env nan_actions sample_reading))) (Motor 1 1) =
     Some NaN"
    unfolding step_venv [OF sample_valid l(2) d]
    by (simp add: sample_env_def robot_motors_def upt_6)
  with l(1) c d show ?thesis by simp
qed

text \<open>
  C5. A step call on an object whose termination flag exists returns; its reward is 0 or 1,
  it is 1 exactly when the collision sensor reports a collision and the cooldown counter
  was -1 before the call, and in that case the counter is 0 after the call.
\<close>

theorem step_reward:
  assumes "valid_env jl s" and "limits_ok jl" and "6 \<le> length actions"
    and "done_attr s = Some d"
  shows "\<exists>ob reward s'. step jl s actions rd = (Inr (ob, reward, d, []), s') \<and>
     reward \<in> {0, 1} \<and>
     (reward = 1 \<longleftrightarrow> is_colliding rd \<and> frames_after_hit s = -1) \<and>
     (reward = 1 \<longrightarrow> frames_after_hit s' = 0)"
proof -
  from step_ok [OF assms(1-3), of rd] obtain ob s3 where
    f: "frames_after_hit s3 = frames_after_hit s" and
    st: "step jl s actions rd =
       ((case done_attr s of None \<Rightarrow> Inl AttributeError
         | Some d \<Rightarrow> Inr (ob, fst (getReward s3 rd), d, [])),
        snd (getReward s3 rd))"
    by blast
  let ?reward = "fst (getReward s3 rd)"
  let ?s' = "snd (getReward s3 rd)"
  have "step jl s actions rd = (Inr (ob, ?reward, d, []), ?s')"
    using st assms(4) by simp
  moreover have "?reward \<in> {0, 1}" by (simp add: getReward_cases)
  moreover have "?reward = 1 \<longleftrightarrow> is_colliding rd \<and> frames_after_hit s = -1"
    using f by (simp add: getReward_cases)
  moreover have "?reward = 1 \<longrightarrow> frames_after_hit ?s' = 0"
    by (simp add: getReward_cases)
  ultimately show ?thesis by blast
qed

theorem step_reward_witness:
  "valid_env sample_limits (sample_env\<lparr>done_attr := Some False\<rparr>) \<and> limits_ok sample_limits \<and>
   6 \<le> length sample_actions \<and> done_attr (sample_env\<lparr>done_attr := Some False\<rparr>) = Some False \<and>
   is_colliding sample_reading \<and> frames_after_hit (sample_env\<lparr>done_attr := Some False\<rparr>) = -1 \<and>
   (\<exists>ob s'. step sample_limits (sample_env\<lparr>done_attr := Some False\<rparr>) sample_actions
        sample_reading = (Inr (ob, 1, False, []), s') \<and> frames_after_hit s' = 0)"
proof -
  let ?s = "sample_env\<lparr>done_attr := Some False\<rparr>"
  have v: "valid_env sample_limits ?s" using sample_valid by (simp add: valid_env_def)
  have l: "6 \<le> length sample_actions" by (simp add: sample_actions_length)
  have d: "done_attr ?s = Some False" by simp
  have c: "is_colliding sample_reading" by (simp add: sample_reading_def)
  have f: "frames_after_hit ?s = -1" by (simp add: sample_env_def)
  from step_reward [OF v sample_limits_ok l d, of sample_reading] c f
  have "\<exists>ob s'. step sample_limits ?s sample_actions sample_reading =
      (Inr (ob, 1, False, []), s') \<and> frames_after_hit s' = 0"
    by metis
  with v sample_limits_ok l d c f show ?thesis by blast
qed

text \<open>
  C6. From every prior state of the object, whatever its cooldown counter and its
  termination flag, a reset call returns and leaves the counter at -1 and the flag false.
\<close>

theorem reset_clears:
  assumes "valid_env jl s" and "limits_ok jl"
  shows "\<exists>ob s'. reset jl s rnd rd = (Inr ob, s') \<and>
     frames_after_hit s' = -1 \<and> done_attr s' = Some False"
proof -
  from reset_ok [OF assms, of rnd rd] obtain ob where
    "reset jl s rnd rd =
      (Inr ob, s\<lparr>venv := venv s @ reset_trace s rnd, frames_after_hit := -1,
               done_attr := Some False, observation := Some ob\<rparr>)"
    by blast
  then show ?thesis by simp
qed

theorem reset_clears_witness:
  "valid_env sample_limits (sample_env\<lparr>frames_after_hit := 2, done_attr := Some True\<rparr>) \<and>
   limits_ok sample_limits \<and>
   (\<exists>ob s'. reset sample_limits (sample_env\<lparr>frames_after_hit := 2, done_attr := Some True\<rparr>)
        sample_rnd sample_reading = (Inr ob, s') \<and>
      frames_after_hit s' = -1 \<and> done_attr s' = Some False)"
proof -
  let ?s = "sample_env\<lparr>frames_after_hit := 2, done_attr := Some True\<rparr>"
  have v: "valid_env sample_limits ?s" using sample_valid by (simp add: valid_env_def)
  from v sample_limits_ok reset_clears [OF v sample_limits_ok, of sample_rnd sample_reading]
  show ?thesis by blast
qed

text \<open>
  C7. After a reset, every step call of any run of step calls returns with the termination
  flag false, and the flag stored in the object is still false after the run.
\<close>

theorem termination_flag_false:
  assumes "valid_env jl s" and "limits_ok jl"
    and "list_all (\<lambda>(a, rd). 6 \<le> length a) inputs"
  shows "length (fst (run_steps jl (snd (reset jl s rnd rd0)) inputs)) = length inputs \<and>
     (\<forall>r\<in>set (fst (run_steps jl (snd (reset jl s rnd rd0)) inputs)).
        \<exists>ob reward. r = Inr (ob, reward, False, [])) \<and>
     done_attr (snd (run_steps jl (snd (reset jl s rnd rd0)) inputs)) = Some False"
proof -
  from reset_ok [OF assms(1,2), of rnd rd0] obtain ob where
    r: "snd (reset jl s rnd rd0) =
      s\<lparr>venv := venv s @ reset_trace s rnd, frames_after_hit := -1,
               done_attr := Some False, observation := Some ob\<rparr>"
    by force
  have "valid_env jl (snd (reset jl s rnd rd0))"
    using assms(1) by (simp add: r valid_env_def)
  moreover have "done_attr (snd (reset jl s rnd rd0)) = Some False" by (simp add: r)
  ultimately show ?thesis
    using assms(2,3) by (intro run_steps_flag)
qed

theorem termination_flag_false_witness:
  "valid_env sample_limits sample_env \<and> limits_ok sample_limits \<and>
   list_all (\<lambda>(a, rd). 6 \<le> length a) sample_inputs \<and>
   length (fst (run_steps sample_limits
      (snd (reset sample_limits sample_env sample_rnd sample_reading)) sample_inputs)) = 3 \<and>
   list_all (\<lambda>r. \<exists>ob reward. r = Inr (ob, reward, False, []))
     (fst (run_steps sample_limits
        (snd (reset sample_limits sample_env sample_rnd sample_reading)) sample_inputs))"
proof -
  have i: "list_all (\<lambda>(a, rd). 6 \<le> length a) sample_inputs"
    by (simp add: sample_inputs_def sample_actions_length)
  have "length sample_inputs = 3" by (simp add: sample_inputs_def)
  with termination_flag_false [OF sample_valid sample_limits_ok i, of sample_rnd sample_reading]
    sample_valid sample_limits_ok i
  show ?thesis by (simp add: list_all_iff)
qed

text \<open>
  C8. No step call, whether it returns or raises, sends a position-target command to any
  of arm B's motors (the handles in \<^verbatim>\<open>motors[1]\<close>); so over any run of step calls the
  position target that each of arm B's motors was last commanded to stays what it was
  before the run.
\<close>

theorem step_leaves_arm_b:
  assumes "valid_env jl s"
  shows "(\<exists>new. venv (snd (step jl s actions rd)) = venv s @ new \<and>
       (\<forall>c\<in>set new. \<not> commands (snd (motors s)) c)) \<and>
     (\<forall>m\<in>set (snd (motors s)).
        position_target (venv (snd (run_steps jl s inputs))) m = position_target (venv s) m)"
proof
  show "\<exists>new. venv (snd (step jl s actions rd)) = venv s @ new \<and>
       (\<forall>c\<in>set new. \<not> commands (snd (motors s)) c)"
    using assms by (rule step_arm_b)
next
  from run_steps_arm_b [OF assms, of inputs] obtain new where
    v: "venv (snd (run_steps jl s inputs)) = venv s @ new" and
    c: "\<forall>c\<in>set new. \<not> commands (snd (motors s)) c"
    by blast
  show "\<forall>m\<in>set (snd (motors s)).
        position_target (venv (snd (run_steps jl s inputs))) m = position_target (venv s) m"
  proof
    fix m assume "m \<in> set (snd (motors s))"
    with c have "position_target new m = None" by (rule position_target_untouched)
    then show "position_target (venv (snd (run_steps jl s inputs))) m = position_target (venv s) m"
      by (simp add: v position_target_append)
  qed
qed

theorem step_leaves_arm_b_witness:
  "valid_env sample_limits (snd (reset sample_limits sample_env sample_rnd sample_reading)) \<and>
   Motor 2 3 \<in> set (snd (motors (snd (reset sample_limits sample_env sample_rnd sample_reading)))) \<and>
   position_target
     (venv (snd (run_steps sample_limits
        (snd (reset sample_limits sample_env sample_rnd sample_reading)) sample_inputs)))
     (Motor 2 3) =
   position_target (venv (snd (reset sample_limits sample_env sample_rnd sample_reading)))
     (Motor 2 3)"
proof -
  let ?s = "snd (reset sample_limits sample_env sample_rnd sample_reading)"
  have v: "valid_env sample_limits ?s"
    using sample_valid sample_limits_ok by (rule reset_valid)
  then have "motors ?s = (robot_motors 0, robot_motors 1)" by (simp add: valid_env_def)
  then have m: "Motor 2 3 \<in> set (snd (motors ?s))"
    by (simp add: robot_motors_def upt_6)
  from step_leaves_arm_b [OF v, of sample_actions sample_reading sample_inputs] v m
  show ?thesis by blast
qed

text \<open>
  C9. On every reset, for each joint index \<open>i\<close> below 6, the draw for joint \<open>i\<close> returns
  an integer \<open>n\<close> of the range \<^verbatim>\<open>RANDOM_NOISE[i]\<close> (low included, high excluded), drawn
  from that joint's own entropy, and the position target that arm B's motor \<open>i\<close> is left
  commanded to is \<^verbatim>\<open>REST_POS[i]\<close> plus \<open>n\<close>, which lies between \<^verbatim>\<open>REST_POS[i]\<close> plus
  low and \<^verbatim>\<open>REST_POS[i]\<close> plus high. The noise is a draw and is drawn joint by joint:
  whatever integers of the six ranges are chosen, one for each joint, some entropy makes
  a reset command arm B to the rest position plus exactly these six values.
\<close>

theorem reset_randomizes_arm_b:
  assumes "valid_env jl s" and "i < 6"
  shows "(\<exists>n. randint (fst (RANDOM_NOISE ! i)) (snd (RANDOM_NOISE ! i)) (rnd i) = Inr n \<and>
       fst (RANDOM_NOISE ! i) \<le> n \<and> n < snd (RANDOM_NOISE ! i) \<and>
       position_target (venv (snd (reset jl s rnd rd))) (snd (motors s) ! i) =
         Some (Flt (real_of_int (REST_POS ! i + n))) \<and>
       real_of_int (REST_POS ! i + fst (RANDOM_NOISE ! i)) \<le> real_of_int (REST_POS ! i + n) \<and>
       real_of_int (REST_POS ! i + n) \<le> real_of_int (REST_POS ! i + snd (RANDOM_NOISE ! i))) \<and>
     (\<forall>vs. (\<forall>j<6. fst (RANDOM_NOISE ! j) \<le> vs ! j \<and> vs ! j < snd (RANDOM_NOISE ! j)) \<longrightarrow>
        (\<exists>rnd'. \<forall>j<6.
           position_target (venv (snd (reset jl s rnd' rd))) (snd (motors s) ! j) =
             Some (Flt (real_of_int (REST_POS ! j + vs ! j)))))"
proof
  from reset_target [OF assms, of rnd rd] randint_noise [OF assms(2), of rnd]
    noise_bounds [OF assms(2), of rnd]
  show "\<exists>n. randint (fst (RANDOM_NOISE ! i)) (snd (RANDOM_NOISE ! i)) (rnd i) = Inr n \<and>
       fst (RANDOM_NOISE ! i) \<le> n \<and> n < snd (RANDOM_NOISE ! i) \<and>
       position_target (venv (snd (reset jl s rnd rd))) (snd (motors s) ! i) =
         Some (Flt (real_of_int (REST_POS ! i + n))) \<and>
       real_of_int (REST_POS ! i + fst (RANDOM_NOISE ! i)) \<le> real_of_int (REST_POS ! i + n) \<and>
       real_of_int (REST_POS ! i + n) \<le> real_of_int (REST_POS ! i + snd (RANDOM_NOISE ! i))"
    by (intro exI [of _ "noise rnd i"]) simp
next
  show "\<forall>vs. (\<forall>j<6. fst (RANDOM_NOISE ! j) \<le> vs ! j \<and> vs ! j < snd (RANDOM_NOISE ! j)) \<longrightarrow>
        (\<exists>rnd'. \<forall>j<6.
           position_target (venv (snd (reset jl s rnd' rd))) (snd (motors s) ! j) =
             Some (Flt (real_of_int (REST_POS ! j + vs ! j))))"
  proof (intro allI impI)
    fix vs :: "int list"
    assume r: "\<forall>j<6. fst (RANDOM_NOISE ! j) \<le> vs ! j \<and> vs ! j < snd (RANDOM_NOISE ! j)"
    let ?rnd = "\<lambda>j. nat (vs ! j - fst (RANDOM_NOISE ! j))"
    have "position_target (venv (snd (reset jl s ?rnd rd))) (snd (motors s) ! j) =
             Some (Flt (real_of_int (REST_POS ! j + vs ! j)))" if j: "j < 6" for j
    proof -
      have "noise ?rnd j = vs ! j" using r j by (simp add: noise_attained)
      with reset_target [OF assms(1) j, of ?rnd rd] show ?thesis by simp
    qed
    then show "\<exists>rnd'. \<forall>j<6.
           position_target (venv (snd (reset jl s rnd' rd))) (snd (motors s) ! j) =
             Some (Flt (real_of_int (REST_POS ! j + vs ! j)))"
      by blast
  qed
qed

theorem reset_randomizes_arm_b_witness:
  "valid_env sample_limits sample_env \<and> (3::nat) < 6 \<and>
   randint (fst (RANDOM_NOISE ! 3)) (snd (RANDOM_NOISE ! 3)) (sample_rnd 3) = Inr (-21) \<and>
   position_target (venv (snd (reset sample_limits sample_env sample_rnd sample_reading)))
     (snd (motors sample_env) ! 3) = Some (Flt (-21)) \<and>
   (\<exists>rnd'.
      position_target (venv (snd (reset sample_limits sample_env rnd' sample_reading)))
        (snd (motors sample_env) ! 3) = Some (Flt 44) \<and>
      position_target (venv (snd (reset sample_limits sample_env rnd' sample_reading)))
        (snd (motors sample_env) ! 0) = Some (Flt (-90)))"
proof -
  have i: "(3::nat) < 6" "(0::nat) < 6" by simp_all
  have r: "randint (fst (RANDOM_NOISE ! 3)) (snd (RANDOM_NOISE ! 3)) (sample_rnd 3) = Inr (-21)"
    by (simp add: randint_def RANDOM_NOISE_def sample_rnd_def)
  have z: "REST_POS ! 3 = 0" "REST_POS ! 0 = 0" by (simp_all add: REST_POS_def)
  note t = reset_randomizes_arm_b [OF sample_valid i(1), of sample_rnd sample_reading]
  from t r z have one:
    "position_target (venv (snd (reset sample_limits sample_env sample_rnd sample_reading)))
     (snd (motors sample_env) ! 3) = Some (Flt (-21))"
    by auto
  have "\<forall>j<6. fst (RANDOM_NOISE ! j) \<le> [-90, 0, 0, 44, 0, 0] ! j \<and>
      [-90, 0, 0, 44, 0, 0] ! j < snd (RANDOM_NOISE ! j)"
  proof (intro allI impI)
    fix j :: nat
    assume "j < 6"
    then show "fst (RANDOM_NOISE ! j) \<le> [-90, 0, 0, 44, 0, 0] ! j \<and>
      [-90, 0, 0, 44, 0, 0] ! j < snd (RANDOM_NOISE ! j)"
      by (drule_tac below_six) (auto simp: RANDOM_NOISE_def)
  qed
  with t obtain rnd' where
    "\<forall>j<6. position_target (venv (snd (reset sample_limits sample_env rnd' sample_reading)))
        (snd (motors sample_env) ! j) =
      Some (Flt (real_of_int (REST_POS ! j + [-90, 0, 0, 44, 0, 0] ! j)))"
    by blast
  with i z have two: "\<exists>rnd'.
      position_target (venv (snd (reset sample_limits sample_env rnd' sample_reading)))
        (snd (motors sample_env) ! 3) = Some (Flt 44) \<and>
      position_target (venv (snd (reset sample_limits sample_env rnd' sample_reading)))
        (snd (motors sample_env) ! 0) = Some (Flt (-90))"
    by (intro exI [of _ rnd']) simp
  from sample_valid i(1) r one two show ?thesis by blast
qed

text \<open>
  C10. A freshly constructed object has no \<^verbatim>\<open>done\<close> attribute, and a step call on it
  raises an attribute error: everything else that step reads exists, so the call gets as
  far as reading the termination flag. Once reset has been called, the same step call
  returns.
\<close>

theorem step_before_reset_fails:
  assumes "init jl hl = Inr s" and "limits_ok jl" and "6 \<le> length actions"
  shows "done_attr s = None \<and>
     fst (step jl s actions rd) = Inl AttributeError \<and>
     (\<exists>res. fst (step jl (snd (reset jl s rnd rd0)) actions rd) = Inr res)"
proof -
  from init_valid [OF assms(1)] have v: "valid_env jl s" and d: "done_attr s = None"
    by simp_all
  from step_ok [OF v assms(2,3), of rd] d
  have a: "fst (step jl s actions rd) = Inl AttributeError" by auto
  let ?s' = "snd (reset jl s rnd rd0)"
  have v': "valid_env jl ?s'" using v assms(2) by (rule reset_valid)
  have d': "done_attr ?s' = Some False" using v assms(2) by (rule reset_done)
  from step_ok [OF v' assms(2,3), of rd] d'
  have "\<exists>res. fst (step jl ?s' actions rd) = Inr res" by auto
  with d a show ?thesis by simp
qed

theorem step_before_reset_fails_witness:
  "init sample_limits True = Inr sample_env \<and> limits_ok sample_limits \<and>
   6 \<le> length sample_actions \<and>
   fst (step sample_limits sample_env sample_actions sample_reading) = Inl AttributeError"
proof -
  have l: "6 \<le> length sample_actions" by (simp add: sample_actions_length)
  from step_before_reset_fails [OF sample_init sample_limits_ok l, of sample_reading]
    sample_init sample_limits_ok l
  show ?thesis by simp
qed

end
